theory Spec2Isabelle
  imports Complex_Main
begin

text \<open>
  A model of the playlist service: the retry wrapper \<open>exponentialBackoff\<close> (utils.ts),
  the class \<open>RequestQueue\<close> (requestQueue.ts), and the track resolver, the token
  refresh, the liked-songs fetch and the two playlist flows of index.ts. The first part
  holds the definitions, each next to the lines of the source it follows; the second part
  holds what is proved of them.
\<close>

section \<open>JavaScript values used by the service\<close>

text \<open>
  A value thrown by a unit of work is an error object. The fields the code reads are
  \<open>statusCode\<close>, \<open>headers\<close> (an object from header names to strings, or undefined) and
  \<open>message\<close>. A field the object does not have is \<open>None\<close>.
\<close>

record js_error =
  statusCode :: "int option"
  headers :: "(string \<times> string) list option"
  message :: string

text \<open>
  The \<open>TypeError\<close> the runtime throws when a property of \<open>undefined\<close> is read: an error
  object with neither a status code nor headers.
\<close>

definition typeError :: js_error where
  "typeError = \<lparr>statusCode = None, headers = None, message = ''TypeError''\<rparr>"

text \<open>
  A JavaScript number as far as the code computes with it. JavaScript numbers are doubles:
  every integer of magnitude at most \<open>2 ^ 53\<close> is a double, and a product of such
  integers that is again of magnitude at most \<open>2 ^ 53\<close> is computed exactly. Beyond that
  the doubles round, and the model does not say to which value: \<open>Beyond\<close> is a number
  that the model leaves undetermined.
\<close>

datatype number = NaN | Number int | Beyond

definition js_int :: "int \<Rightarrow> number" where
  "js_int n = (if \<bar>n\<bar> \<le> 2 ^ 53 then Number n else Beyond)"

fun times :: "number \<Rightarrow> int \<Rightarrow> number" where
  "times NaN k = NaN"
| "times Beyond k = Beyond"
| "times (Number n) k = js_int (n * k)"

text \<open>Truthiness of a property that holds a string or is undefined.\<close>

fun truthy_string :: "string option \<Rightarrow> bool" where
  "truthy_string None = False"
| "truthy_string (Some s) = (s \<noteq> [])"

text \<open>
  A JavaScript value where the code does not know its type: \<open>undefined\<close>, \<open>null\<close>, a
  boolean, a number, a string or an object. \<open>a ?? b\<close> is \<open>b\<close> when \<open>a\<close> is \<open>undefined\<close>
  or \<open>null\<close> and \<open>a\<close> otherwise; \<open>if\<close> and \<open>!\<close> test truthiness.
\<close>

datatype js_value = JUndefined | JNull | JBoolean bool | JNumber int | JString string | JObject

fun nullish :: "js_value \<Rightarrow> js_value \<Rightarrow> js_value" where
  "nullish JUndefined b = b"
| "nullish JNull b = b"
| "nullish a b = a"

fun truthy :: "js_value \<Rightarrow> bool" where
  "truthy JUndefined = False"
| "truthy JNull = False"
| "truthy (JBoolean b) = b"
| "truthy (JNumber n) = (n \<noteq> 0)"
| "truthy (JString s) = (s \<noteq> [])"
| "truthy JObject = True"

subsection \<open>The built-in \<open>parseInt\<close> with no radix argument\<close>

text \<open>
  Header values are Latin-1 strings, so a character is one byte. The white space
  \<open>parseInt\<close> skips is, in that range, TAB, LF, VT, FF, CR, SP and NBSP.
\<close>

definition is_ws :: "char \<Rightarrow> bool" where
  "is_ws c = (of_char c \<in> {9::nat, 10, 11, 12, 13, 32, 160})"

definition digit_val :: "nat \<Rightarrow> char \<Rightarrow> nat option" where
  "digit_val R c =
     (let n = (of_char c :: nat);
          v = (if 48 \<le> n \<and> n \<le> 57 then Some (n - 48)
               else if 97 \<le> n \<and> n \<le> 122 then Some (n - 87)
               else if 65 \<le> n \<and> n \<le> 90 then Some (n - 55)
               else None)
      in case v of None \<Rightarrow> None | Some d \<Rightarrow> if d < R then Some d else None)"

definition digits_value :: "nat \<Rightarrow> string \<Rightarrow> nat" where
  "digits_value R Z = foldl (\<lambda>a c. a * R + the (digit_val R c)) 0 Z"

text \<open>A decimal digit, and the number a string of decimal digits writes.\<close>

definition is_decimal :: "char \<Rightarrow> bool" where
  "is_decimal c = (48 \<le> (of_char c :: nat) \<and> (of_char c :: nat) \<le> 57)"

definition parseInt :: "string \<Rightarrow> number" where
  "parseInt str =
     (let s = dropWhile is_ws str;
          neg = (take 1 s = ''-'');
          s1 = (if take 1 s = ''-'' \<or> take 1 s = ''+'' then drop 1 s else s);
          hex = (take 2 s1 = ''0x'' \<or> take 2 s1 = ''0X'');
          R = (if hex then 16 else 10);
          s2 = (if hex then drop 2 s1 else s1);
          Z = takeWhile (\<lambda>c. digit_val R c \<noteq> None) s2
      in if Z = [] then NaN
         else js_int ((if neg then - 1 else 1) * int (digits_value R Z)))"

section \<open>\<open>exponentialBackoff\<close> (utils.ts)\<close>

text \<open>
  The unit of work \<open>fn\<close> is called once in every iteration of the loop, and \<open>retries\<close>
  grows by one in every iteration that goes on, so the call made while \<open>retries = k\<close> is
  the call number \<open>k\<close> (from 0). The unit of work is given by the outcome of each of its
  calls: \<open>fn k\<close> is \<open>Inr v\<close> when call \<open>k\<close> resolves with \<open>v\<close> and \<open>Inl e\<close> when it
  rejects with \<open>e\<close>.
\<close>

type_synonym 'a unit_of_work = "nat \<Rightarrow> js_error + 'a"

text \<open>
  Lines 12 to 14: the delay before the next attempt, \<open>parseInt(hint) * 1000\<close> or
  \<open>initialDelay * Math.pow(2, retries)\<close>. Reading \<open>error.headers["retry-after"]\<close> throws
  a \<open>TypeError\<close> when the error has no \<open>headers\<close> object.
\<close>

definition retryDelay :: "js_error \<Rightarrow> int \<Rightarrow> nat \<Rightarrow> js_error + number" where
  "retryDelay error initialDelay retries =
     (case headers error of
        None \<Rightarrow> Inl typeError
      | Some h \<Rightarrow>
          Inr (if truthy_string (map_of h ''retry-after'')
               then times (parseInt (the (map_of h ''retry-after''))) 1000
               else times (js_int (2 ^ retries)) initialDelay))"

text \<open>
  The loop of lines 7 to 22. The result is the settlement of the returned promise together
  with the delays handed to \<open>setTimeout\<close>, in order. A throw inside the \<open>catch\<close> block
  leaves the function.
\<close>

function backoff_loop ::
  "'a unit_of_work \<Rightarrow> int \<Rightarrow> int \<Rightarrow> nat \<Rightarrow> (js_error + 'a) \<times> number list" where
  "backoff_loop fn maxRetries initialDelay retries =
     (case fn retries of
        Inr v \<Rightarrow> (Inr v, [])
      | Inl error \<Rightarrow>
          if statusCode error = Some 429 \<and> int retries < maxRetries
          then (case retryDelay error initialDelay retries of
                  Inl thrown \<Rightarrow> (Inl thrown, [])
                | Inr delay \<Rightarrow>
                    (case backoff_loop fn maxRetries initialDelay (retries + 1) of
                       (r, waits) \<Rightarrow> (r, delay # waits)))
          else (Inl error, []))"
  by pat_completeness auto
termination
  by (relation "measure (\<lambda>(fn, maxRetries, initialDelay, retries). nat (maxRetries - int retries))")
     auto

declare backoff_loop.simps [simp del]

definition exponentialBackoff ::
  "'a unit_of_work \<Rightarrow> int \<Rightarrow> int \<Rightarrow> (js_error + 'a) \<times> number list" where
  "exponentialBackoff fn maxRetries initialDelay = backoff_loop fn maxRetries initialDelay 0"

text \<open>
  An example unit of work: the first call is rate limited with a hint of 7 seconds, the
  second is rate limited with no hint, the third fails with status 500.
\<close>

definition example_unit :: "unit unit_of_work" where
  "example_unit k =
     (if k = 0 then Inl \<lparr>statusCode = Some 429, headers = Some [(''retry-after'', ''7'')],
                          message = ''Too Many Requests''\<rparr>
      else if k = 1 then Inl \<lparr>statusCode = Some 429, headers = Some [], message = ''Too Many Requests''\<rparr>
      else Inl \<lparr>statusCode = Some 500, headers = Some [], message = ''Internal Server Error''\<rparr>)"

text \<open>
  A unit of work whose first call is rate limited with an error object that has no
  \<open>headers\<close>, and whose later calls succeed.
\<close>

definition headerless_unit :: "unit unit_of_work" where
  "headerless_unit k =
     (if k = 0
      then Inl \<lparr>statusCode = Some 429, headers = None, message = ''Too Many Requests''\<rparr>
      else Inr ())"

section \<open>\<open>RequestQueue\<close> (requestQueue.ts)\<close>

text \<open>
  \<open>requestQueue.add fn\<close> returns a promise that settles as \<open>exponentialBackoff fn\<close>, with
  its default arguments, does (lines 10 to 15); \<open>fn\<close> is called once for every attempt.
\<close>

definition queued :: "'a unit_of_work \<Rightarrow> js_error + 'a" where
  "queued fn = fst (exponentialBackoff fn 5 1000)"

definition attempts :: "'a unit_of_work \<Rightarrow> nat" where
  "attempts fn = length (snd (exponentialBackoff fn 5 1000)) + 1"

text \<open>
  JavaScript runs the code between two \<open>await\<close>s without interruption, so the queue is a
  state machine: its state changes when \<open>add\<close> is called, when the promise a worker
  awaits in line 27 settles, and when the timer a worker awaits in line 28 fires.

  A unit of work handed to \<open>add\<close> carries a label, which only names it in the observations.
\<close>

record 'a task =
  label :: nat
  work :: "'a unit_of_work"

text \<open>
  An activation of \<open>process\<close> that is suspended: at line 27, awaiting the request it has
  started, or at line 28, awaiting the timer of the given delay.
\<close>

datatype 'a activation = AwaitRequest "'a task" | AwaitDelay nat

text \<open>How the promise of an \<open>async\<close> function settles when its result is not used.\<close>

datatype completion = Fulfilled | Rejected js_error

text \<open>
  What can be observed of the queue: a unit of work is started, the promise \<open>add\<close>
  returned for it is settled (rejected with \<open>Inl\<close>, resolved with \<open>Inr\<close>), a delay has
  elapsed.
\<close>

datatype 'a observation = Started nat | Settled nat "js_error + 'a" | Waited nat

text \<open>
  The fields \<open>queue\<close> and \<open>isProcessing\<close> of the class, the suspended activations of
  \<open>process\<close>, and the observations so far.
\<close>

record 'a request_queue =
  queue :: "'a task list"
  isProcessing :: bool
  workers :: "'a activation list"
  trace :: "'a observation list"

definition new_queue :: "'a request_queue" where
  "new_queue = \<lparr>queue = [], isProcessing = False, workers = [], trace = []\<rparr>"

text \<open>
  The function pushed in lines 9 to 16, run to its end: it settles the promise of \<open>add\<close>
  as \<open>exponentialBackoff fn\<close> settles, and in both branches returns normally.
\<close>

definition run_request :: "'a task \<Rightarrow> (js_error + 'a) \<times> completion" where
  "run_request t =
     (case queued (work t) of
        Inr result \<Rightarrow> (Inr result, Fulfilled)
      | Inl error \<Rightarrow> (Inl error, Fulfilled))"

text \<open>
  The head of the \<open>while\<close> loop (lines 24 to 27 and 31), run by an activation: with a
  request in the queue it shifts it, starts it and suspends; with none it resets
  \<open>isProcessing\<close> and ends.
\<close>

definition loop_head :: "'a request_queue \<Rightarrow> 'a activation option \<times> 'a request_queue" where
  "loop_head q =
     (case queue q of
        [] \<Rightarrow> (None, q\<lparr>isProcessing := False\<rparr>)
      | request # rest \<Rightarrow>
          (Some (AwaitRequest request),
           q\<lparr>queue := rest, trace := trace q @ [Started (label request)]\<rparr>))"

definition process :: "'a request_queue \<Rightarrow> 'a request_queue" where
  "process q =
     (if isProcessing q then q
      else (case loop_head (q\<lparr>isProcessing := True\<rparr>) of
              (None, q') \<Rightarrow> q'
            | (Some a, q') \<Rightarrow> q'\<lparr>workers := workers q' @ [a]\<rparr>))"

definition add :: "'a task \<Rightarrow> 'a request_queue \<Rightarrow> 'a request_queue" where
  "add t q = process (q\<lparr>queue := queue q @ [t]\<rparr>)"

definition remove_at :: "nat \<Rightarrow> 'b list \<Rightarrow> 'b list" where
  "remove_at i xs = take i xs @ drop (Suc i) xs"

text \<open>
  The request that activation \<open>i\<close> awaits settles. When it is fulfilled the activation
  goes on to line 28 and sets the timer; were it rejected, the \<open>await\<close> would throw and
  the activation would end without resetting \<open>isProcessing\<close>.
\<close>

definition request_done :: "nat \<Rightarrow> 'a request_queue \<Rightarrow> 'a request_queue" where
  "request_done i q =
     (if i < length (workers q)
      then (case workers q ! i of
              AwaitRequest t \<Rightarrow>
                (case run_request t of
                   (settlement, Fulfilled) \<Rightarrow>
                     q\<lparr>workers := (workers q)[i := AwaitDelay 50],
                       trace := trace q @ [Settled (label t) settlement]\<rparr>
                 | (settlement, Rejected error) \<Rightarrow>
                     q\<lparr>workers := remove_at i (workers q),
                       trace := trace q @ [Settled (label t) settlement]\<rparr>)
            | AwaitDelay d \<Rightarrow> q)
      else q)"

text \<open>The timer that activation \<open>i\<close> awaits fires: the activation is back at the loop head.\<close>

definition timer_done :: "nat \<Rightarrow> 'a request_queue \<Rightarrow> 'a request_queue" where
  "timer_done i q =
     (if i < length (workers q)
      then (case workers q ! i of
              AwaitDelay d \<Rightarrow>
                (case loop_head (q\<lparr>trace := trace q @ [Waited d]\<rparr>) of
                   (None, q') \<Rightarrow> q'\<lparr>workers := remove_at i (workers q')\<rparr>
                 | (Some a, q') \<Rightarrow> q'\<lparr>workers := (workers q')[i := a]\<rparr>)
            | AwaitRequest t \<Rightarrow> q)
      else q)"

datatype 'a event = Add "'a task" | RequestDone nat | TimerDone nat

fun step :: "'a request_queue \<Rightarrow> 'a event \<Rightarrow> 'a request_queue" where
  "step q (Add t) = add t q"
| "step q (RequestDone i) = request_done i q"
| "step q (TimerDone i) = timer_done i q"

text \<open>The queue after a sequence of events, from a new queue.\<close>

definition after :: "'a event list \<Rightarrow> 'a request_queue" where
  "after es = foldl step new_queue es"

text \<open>
  The event loop left alone: the first activation is resumed until none is left. Every
  call of a unit of work settles in this model, so every awaited promise settles.
\<close>

fun weight :: "'a activation \<Rightarrow> nat" where
  "weight (AwaitRequest t) = 2"
| "weight (AwaitDelay d) = 1"

function drain :: "'a request_queue \<Rightarrow> 'a request_queue" where
  "drain q =
     (case workers q of
        [] \<Rightarrow> q
      | AwaitRequest t # others \<Rightarrow> drain (request_done 0 q)
      | AwaitDelay d # others \<Rightarrow> drain (timer_done 0 q))"
  by pat_completeness auto
termination
  by (relation "measure (\<lambda>q. 2 * length (queue q) + sum_list (map weight (workers q)))")
     (auto simp: request_done_def timer_done_def run_request_def loop_head_def remove_at_def
           split: sum.splits list.splits)

declare drain.simps [simp del]

subsection \<open>Reading the observations\<close>

text \<open>The tasks handed to \<open>add\<close>, the labels started and the settlements, each in order.\<close>

fun added :: "'a event list \<Rightarrow> 'a task list" where
  "added [] = []"
| "added (Add t # es) = t # added es"
| "added (RequestDone i # es) = added es"
| "added (TimerDone i # es) = added es"

fun started :: "'a observation list \<Rightarrow> nat list" where
  "started [] = []"
| "started (Started l # os) = l # started os"
| "started (Settled l r # os) = started os"
| "started (Waited d # os) = started os"

fun settled :: "'a observation list \<Rightarrow> (nat \<times> (js_error + 'a)) list" where
  "settled [] = []"
| "settled (Started l # os) = settled os"
| "settled (Settled l r # os) = (l, r) # settled os"
| "settled (Waited d # os) = settled os"

text \<open>
  The pace of a sequence of observations: it is serial when it repeats, in this order, a
  unit started, the same unit settled, and the delay of 50 ms elapsed. \<open>pace\<close> follows a
  sequence from a phase; \<open>None\<close> is a sequence out of pace.
\<close>

datatype phase = Ready | Busy nat | Resting

fun pace_step :: "phase option \<Rightarrow> 'a observation \<Rightarrow> phase option" where
  "pace_step (Some Ready) (Started l) = Some (Busy l)"
| "pace_step (Some (Busy l)) (Settled l' r) = (if l' = l then Some Resting else None)"
| "pace_step (Some Resting) (Waited d) = (if d = 50 then Some Ready else None)"
| "pace_step _ _ = None"

definition pace :: "'a observation list \<Rightarrow> phase option" where
  "pace os = foldl pace_step (Some Ready) os"

definition serial :: "'a observation list \<Rightarrow> bool" where
  "serial os = (pace os \<noteq> None)"

text \<open>Whether an activation has a unit of work in flight.\<close>

fun executing :: "'a activation \<Rightarrow> bool" where
  "executing (AwaitRequest t) = True"
| "executing (AwaitDelay d) = False"

subsection \<open>The invariant of the queue\<close>

text \<open>
  There is no activation and the queue is idle and empty, or there is exactly one, which
  awaits its request or the delay of 50 ms; the observations are in pace with it.
\<close>

definition one_worker :: "'a request_queue \<Rightarrow> bool" where
  "one_worker q =
     ((workers q = [] \<and> \<not> isProcessing q \<and> queue q = [] \<and> pace (trace q) = Some Ready)
      \<or> (\<exists>t. workers q = [AwaitRequest t] \<and> isProcessing q
              \<and> pace (trace q) = Some (Busy (label t)))
      \<or> (workers q = [AwaitDelay 50] \<and> isProcessing q \<and> pace (trace q) = Some Resting))"

text \<open>The units of work in flight, and the settlement that is due to a unit of work.\<close>

fun in_flight :: "'a activation list \<Rightarrow> 'a task list" where
  "in_flight [] = []"
| "in_flight (AwaitRequest t # ws) = t # in_flight ws"
| "in_flight (AwaitDelay d # ws) = in_flight ws"

definition due :: "'a task \<Rightarrow> nat \<times> (js_error + 'a)" where
  "due t = (label t, queued (work t))"

text \<open>
  An example: a unit of work that fails with status 500 at every call, and one that
  resolves at once.
\<close>

definition failing_task :: "unit task" where
  "failing_task =
     \<lparr>label = 1,
      work = (\<lambda>k. Inl \<lparr>statusCode = Some 500, headers = Some [], message = ''Internal Server Error''\<rparr>)\<rparr>"

definition passing_task :: "unit task" where
  "passing_task = \<lparr>label = 2, work = (\<lambda>k. Inr ())\<rparr>"

section \<open>The streaming platform and the language model as seen by the service\<close>

text \<open>
  Strings of names, titles and prompts are lists of characters; a character stands for one
  code unit of the JavaScript string (the code units below 256).

  The interfaces of index.ts.
\<close>

record token_data =
  access_token :: string
  refresh_token :: string
  expires_at :: int

record song =
  title :: string
  artist :: string

record playlist =
  name :: string
  description :: string
  songs :: "song list"

record liked_song =
  liked_name :: string
  liked_artist :: string
  liked_id :: string

text \<open>What the service reads of the platform's answers.\<close>

record grant =
  granted_access_token :: string
  expires_in :: int

record saved_item =
  track_name :: string
  track_artists :: "string list"
  track_id :: string

record saved_page =
  total :: int
  items :: "saved_item list"

text \<open>
  The outside world. A search answers with the uris (ids) of \<open>body.tracks.items\<close>
  (\<open>body.artists.items\<close>), or \<open>None\<close> when the field \<open>tracks\<close> (\<open>artists\<close>) is absent.
  The answers are functions of the request; \<open>createPlaylist\<close> and \<open>addTracksToPlaylist\<close>,
  which the service retries, also of the number of the attempt. \<open>random\<close> is the value
  \<open>Math.random()\<close> returns while the given song is resolved, \<open>clock\<close> the values of the
  successive calls of \<open>Date.now()\<close>. \<open>readPlaylists\<close> is the parsed content of
  saved_playlists.json and \<open>messagesCreate\<close> the parsed answer of the language model to a
  user prompt, or the failure of reading, calling or parsing.
\<close>

record platform =
  searchTracks :: "string \<Rightarrow> js_error + string list option"
  searchArtists :: "string \<Rightarrow> js_error + string list option"
  getArtistTopTracks :: "string \<Rightarrow> string \<Rightarrow> js_error + string list"
  random :: "song \<Rightarrow> rat"
  createPlaylist :: "string \<Rightarrow> string \<Rightarrow> string unit_of_work"
  addTracksToPlaylist :: "string \<Rightarrow> string list \<Rightarrow> unit unit_of_work"
  getMySavedTracks :: "nat \<Rightarrow> nat \<Rightarrow> js_error + saved_page"
  refreshAccessToken :: "string \<Rightarrow> js_error + grant"
  writeTokenFile :: "token_data \<Rightarrow> bool"
  clock :: "nat \<Rightarrow> int"
  readPlaylists :: "js_error + playlist list"
  messagesCreate :: "js_value \<Rightarrow> js_error + playlist"

text \<open>The outbound calls, as they are logged.\<close>

datatype call =
    SearchTracks string
  | SearchArtists string
  | GetArtistTopTracks string string
  | CreatePlaylist string string
  | AddTracksToPlaylist string "string list"
  | GetMySavedTracks nat nat
  | RefreshAccessToken string
  | MessagesCreate js_value

section \<open>\<open>findTrackUris\<close> (index.ts)\<close>

subsection \<open>The conditions of lines 302 and 312\<close>

text \<open>
  \<open>??\<close> binds weaker than \<open>>\<close>, so the condition \<open>x?.items.length ?? 0 > 0\<close> is
  \<open>x?.items.length ?? (0 > 0)\<close>, and \<open>if\<close> tests its truthiness.
\<close>

text \<open>\<open>x?.items.length\<close>, where \<open>x\<close> is the field \<open>tracks\<close> or \<open>artists\<close> of the answer.\<close>

fun optional_length :: "'a list option \<Rightarrow> js_value" where
  "optional_length None = JUndefined"
| "optional_length (Some xs) = JNumber (int (length xs))"

definition found_condition :: "'a list option \<Rightarrow> bool" where
  "found_condition x = truthy (nullish (optional_length x) (JBoolean ((0::int) > 0)))"

subsection \<open>One song (lines 296 to 335)\<close>

text \<open>
  The result is the uri or \<open>undefined\<close>, with the calls made. Everything thrown inside
  the \<open>try\<close> block, a failed call as well as the \<open>TypeError\<close> of reading \<open>.uri\<close> or
  \<open>.id\<close> of a missing item, is caught and gives \<open>undefined\<close>.
\<close>

definition exact_query :: "song \<Rightarrow> string" where
  "exact_query s = ''track:'' @ title s @ '' artist:'' @ artist s"

definition item_at :: "'a list \<Rightarrow> nat \<Rightarrow> 'a option" where
  "item_at xs i = (if i < length xs then Some (xs ! i) else None)"

definition resolve_song :: "platform \<Rightarrow> song \<Rightarrow> string option \<times> call list" where
  "resolve_song P s =
     (case searchTracks P (exact_query s) of
        Inl error \<Rightarrow> (None, [SearchTracks (exact_query s)])
      | Inr exactSearch \<Rightarrow>
          if found_condition exactSearch
          then (item_at (case exactSearch of None \<Rightarrow> [] | Some xs \<Rightarrow> xs) 0,
                [SearchTracks (exact_query s)])
          else
            (case searchArtists P (artist s) of
               Inl error \<Rightarrow> (None, [SearchTracks (exact_query s), SearchArtists (artist s)])
             | Inr artistSearch \<Rightarrow>
                 if found_condition artistSearch
                 then
                   (case item_at (case artistSearch of None \<Rightarrow> [] | Some xs \<Rightarrow> xs) 0 of
                      None \<Rightarrow> (None, [SearchTracks (exact_query s), SearchArtists (artist s)])
                    | Some artistId \<Rightarrow>
                        (case getArtistTopTracks P artistId ''US'' of
                           Inl error \<Rightarrow>
                             (None, [SearchTracks (exact_query s), SearchArtists (artist s),
                                     GetArtistTopTracks artistId ''US''])
                         | Inr topTracks \<Rightarrow>
                             (if length topTracks > 0
                              then item_at topTracks
                                     (nat \<lfloor>random P s * of_nat (min 5 (length topTracks))\<rfloor>)
                              else None,
                              [SearchTracks (exact_query s), SearchArtists (artist s),
                               GetArtistTopTracks artistId ''US''])))
                 else (None, [SearchTracks (exact_query s), SearchArtists (artist s)])))"

subsection \<open>Batches, the queue and the result (lines 285 to 342)\<close>

definition slice :: "'a list \<Rightarrow> nat \<Rightarrow> nat \<Rightarrow> 'a list" where
  "slice xs b e = take (e - b) (drop b xs)"

definition batchSize :: nat where
  "batchSize = 20"

function batches_from :: "'a list \<Rightarrow> nat \<Rightarrow> 'a list list" where
  "batches_from input i =
     (if i < length input
      then slice input i (i + batchSize) # batches_from input (i + batchSize)
      else [])"
  by pat_completeness auto
termination
  by (relation "measure (\<lambda>(input, i). length input - i)") (auto simp: batchSize_def)

declare batches_from.simps [simp del]

text \<open>
  \<open>Promise.all\<close> resolves with all the values in order, or rejects with a rejection of
  one of its promises.
\<close>

fun promise_all :: "(js_error + 'a) list \<Rightarrow> js_error + 'a list" where
  "promise_all [] = Inr []"
| "promise_all (Inl e # ps) = Inl e"
| "promise_all (Inr v # ps) = (case promise_all ps of Inl e \<Rightarrow> Inl e | Inr vs \<Rightarrow> Inr (v # vs))"

text \<open>
  The unit of work of one batch (lines 294 to 338) resolves with the uris of its songs at
  every call. The calls of a batch are listed song by song; the songs of a batch are
  resolved interleaved, so only which calls are made is meant, not their order.

  \<open>findTrackUris\<close> makes the batches, hands one unit of work to \<open>requestQueue.add\<close> for
  every batch (lines 293 and 294) and awaits all the promises. Its result comes with the
  calls made and with the units of work handed to the queue, in the order of the calls of
  \<open>add\<close>.
\<close>

definition batch_task :: "platform \<Rightarrow> song list \<Rightarrow> string option list unit_of_work" where
  "batch_task P batch = (\<lambda>attempt. Inr (map (\<lambda>s. fst (resolve_song P s)) batch))"

definition batch_calls :: "platform \<Rightarrow> song list \<Rightarrow> call list" where
  "batch_calls P batch = concat (map (\<lambda>s. snd (resolve_song P s)) batch)"

definition findTrackUris ::
  "platform \<Rightarrow> song list
     \<Rightarrow> (js_error + string option list) \<times> call list \<times> string option list unit_of_work list" where
  "findTrackUris P input =
     (let batches = batches_from input 0;
          units = map (\<lambda>batch. batch_task P batch) batches;
          results = promise_all (map (\<lambda>unit. queued unit) units)
      in (case results of Inl e \<Rightarrow> Inl e | Inr rs \<Rightarrow> Inr (concat rs),
          concat (map (\<lambda>batch. concat (replicate (attempts (batch_task P batch))
                                          (batch_calls P batch))) batches),
          units))"

text \<open>The number of songs a unit of work resolves when it is called.\<close>

definition unit_size :: "'b list unit_of_work \<Rightarrow> nat" where
  "unit_size unit = (case unit 0 of Inl e \<Rightarrow> 0 | Inr uris \<Rightarrow> length uris)"

text \<open>The condition as \<open>(x?.items.length ?? 0) > 0\<close> would compute it.\<close>

definition count_positive :: "'a list option \<Rightarrow> bool" where
  "count_positive x =
     (case nullish (optional_length x) (JNumber 0) of JNumber n \<Rightarrow> n > 0 | _ \<Rightarrow> False)"

text \<open>
  A platform on which every call fails, and one whose catalogue is empty: both searches
  answer with no items.
\<close>

definition unreachable :: js_error where
  "unreachable = \<lparr>statusCode = None, headers = None, message = ''ECONNREFUSED''\<rparr>"

definition offline :: platform where
  "offline =
     \<lparr>searchTracks = (\<lambda>q. Inl unreachable),
      searchArtists = (\<lambda>a. Inl unreachable),
      getArtistTopTracks = (\<lambda>a m. Inl unreachable),
      random = (\<lambda>s. 0),
      createPlaylist = (\<lambda>n d k. Inl unreachable),
      addTracksToPlaylist = (\<lambda>i us k. Inl unreachable),
      getMySavedTracks = (\<lambda>l off. Inl unreachable),
      refreshAccessToken = (\<lambda>r. Inl unreachable),
      writeTokenFile = (\<lambda>t. True),
      clock = (\<lambda>k. 0),
      readPlaylists = Inl unreachable,
      messagesCreate = (\<lambda>p. Inl unreachable)\<rparr>"

definition empty_catalogue :: platform where
  "empty_catalogue =
     offline\<lparr>searchTracks := (\<lambda>q. Inr (Some [])), searchArtists := (\<lambda>a. Inr (Some []))\<rparr>"

definition some_song :: song where
  "some_song = \<lparr>title = ''t'', artist = ''a''\<rparr>"

section \<open>\<open>refreshTokenIfNeeded\<close> (index.ts, lines 621 to 652)\<close>

text \<open>
  The state of the server: the token file (\<open>None\<close> when it cannot be read or parsed as a
  token record), the records written to it in order, the tokens set on the API client,
  the number of calls of \<open>Date.now()\<close> made and the outbound calls made.
\<close>

record server =
  token_file :: "token_data option"
  token_writes :: "token_data list"
  api_access_token :: "string option"
  api_refresh_token :: "string option"
  ticks :: nat
  calls :: "call list"

definition failed_to_refresh :: js_error where
  "failed_to_refresh =
     \<lparr>statusCode = None, headers = None,
      message = ''Failed to refresh token. Please log in again.''\<rparr>"

definition refreshTokenIfNeeded :: "platform \<Rightarrow> server \<Rightarrow> (js_error + unit) \<times> server" where
  "refreshTokenIfNeeded P st =
     (case token_file st of
        None \<Rightarrow> (Inl failed_to_refresh, st)
      | Some tokenData \<Rightarrow>
          let now = clock P (ticks st);
              st1 = st\<lparr>ticks := ticks st + 1\<rparr>
          in if now > expires_at tokenData - 300000
             then
               let st2 = st1\<lparr>api_refresh_token := Some (refresh_token tokenData),
                             calls := calls st1 @ [RefreshAccessToken (refresh_token tokenData)]\<rparr>
               in (case refreshAccessToken P (refresh_token tokenData) of
                     Inl error \<Rightarrow> (Inl failed_to_refresh, st2)
                   | Inr data \<Rightarrow>
                       let written = \<lparr>access_token = granted_access_token data,
                                      refresh_token = refresh_token tokenData,
                                      expires_at = clock P (ticks st2) + expires_in data * 1000\<rparr>;
                           st3 = st2\<lparr>ticks := ticks st2 + 1\<rparr>
                       in if writeTokenFile P written
                          then (Inr (),
                                st3\<lparr>token_file := Some written,
                                    token_writes := token_writes st3 @ [written],
                                    api_access_token := Some (granted_access_token data)\<rparr>)
                          else (Inl failed_to_refresh, st3))
             else (Inr (), st1\<lparr>api_access_token := Some (access_token tokenData)\<rparr>))"

text \<open>
  An example: a server whose stored token expires one second after the time 1000000, and a
  platform that grants a new access token for an hour.
\<close>

definition expiring_server :: server where
  "expiring_server =
     \<lparr>token_file = Some \<lparr>access_token = ''old'', refresh_token = ''r'', expires_at = 1001000\<rparr>,
      token_writes = [], api_access_token = None, api_refresh_token = None,
      ticks = 0, calls = []\<rparr>"

definition granting :: platform where
  "granting =
     offline\<lparr>refreshAccessToken := (\<lambda>r. Inr \<lparr>granted_access_token = ''new'', expires_in = 3600\<rparr>),
             clock := (\<lambda>k. 1000000)\<rparr>"

section \<open>\<open>getAllLikedSongs\<close> (index.ts, lines 654 to 677)\<close>

text \<open>
  The callback of \<open>items.map\<close>: reading \<open>.name\<close> of \<open>item.track.artists[0]\<close> throws a
  \<open>TypeError\<close> when the track has no artist, and the throw leaves \<open>map\<close>.
\<close>

definition to_liked :: "saved_item \<Rightarrow> js_error + liked_song" where
  "to_liked item =
     (case track_artists item of
        [] \<Rightarrow> Inl typeError
      | a # _ \<Rightarrow> Inr \<lparr>liked_name = track_name item, liked_artist = a, liked_id = track_id item\<rparr>)"

fun map_items :: "saved_item list \<Rightarrow> js_error + liked_song list" where
  "map_items [] = Inr []"
| "map_items (item # rest) =
     (case to_liked item of
        Inl e \<Rightarrow> Inl e
      | Inr t \<Rightarrow> (case map_items rest of Inl e \<Rightarrow> Inl e | Inr ts \<Rightarrow> Inr (t # ts)))"

definition limit :: nat where
  "limit = 50"

text \<open>
  The \<open>do \<dots> while\<close> loop, from the state (\<open>allTracks\<close>, \<open>offset\<close>) at the head of an
  iteration, with the page requests made so far. The platform states the total anew on
  every page, so the loop need not end: \<open>None\<close> is the loop that runs for ever.
\<close>

partial_function (option) liked_songs_loop ::
  "platform \<Rightarrow> liked_song list \<Rightarrow> nat \<Rightarrow> call list
     \<Rightarrow> ((js_error + liked_song list) \<times> call list) option" where
  "liked_songs_loop P allTracks offset requests =
     (case getMySavedTracks P limit offset of
        Inl e \<Rightarrow> Some (Inl e, requests @ [GetMySavedTracks limit offset])
      | Inr data \<Rightarrow>
          (case map_items (items data) of
             Inl e \<Rightarrow> Some (Inl e, requests @ [GetMySavedTracks limit offset])
           | Inr tracks \<Rightarrow>
               if int (offset + limit) < total data
               then liked_songs_loop P (allTracks @ tracks) (offset + limit)
                      (requests @ [GetMySavedTracks limit offset])
               else Some (Inr (allTracks @ tracks),
                          requests @ [GetMySavedTracks limit offset])))"

definition getAllLikedSongs ::
  "platform \<Rightarrow> ((js_error + liked_song list) \<times> call list) option" where
  "getAllLikedSongs P = liked_songs_loop P [] 0 []"

text \<open>The liked song made of an item that has an artist.\<close>

definition liked_of :: "saved_item \<Rightarrow> liked_song" where
  "liked_of item =
     \<lparr>liked_name = track_name item, liked_artist = hd (track_artists item),
      liked_id = track_id item\<rparr>"

text \<open>An example library of 120 saved tracks, served in pages of at most 50 from an offset.\<close>

definition library_item :: "nat \<Rightarrow> saved_item" where
  "library_item i = \<lparr>track_name = ''n'', track_artists = [''a''], track_id = replicate i CHR ''i''\<rparr>"

definition library_120 :: platform where
  "library_120 =
     offline\<lparr>getMySavedTracks :=
       (\<lambda>l off. Inr \<lparr>total = 120, items = map library_item [off..<min (off + 50) 120]\<rparr>)\<rparr>"

section \<open>The route handlers (index.ts)\<close>

text \<open>
  A response: its status and what is sent. An error page carries the error that
  \<open>formatSpotifyError\<close> renders; a page of players carries, for each player, the name, the
  description and the id of the playlist.
\<close>

record embed =
  embed_name :: string
  embed_description :: string
  embed_id :: string

datatype reply = Text string | ErrorReport js_error | PreviewPage "embed list" | CustomPage embed

record response =
  status :: nat
  body :: reply

subsection \<open>The middleware (lines 104 to 117)\<close>

definition with_token_check ::
  "platform \<Rightarrow> string \<Rightarrow> (server \<Rightarrow> response \<times> server) \<Rightarrow> server \<Rightarrow> response \<times> server" where
  "with_token_check P path handler st =
     (if path \<noteq> ''/login'' \<and> path \<noteq> ''/callback''
      then (case refreshTokenIfNeeded P st of
              (Inr _, st1) \<Rightarrow> handler st1
            | (Inl error, st1) \<Rightarrow>
                (\<lparr>status = 401, body = Text ''Authentication required. Please log in again.''\<rparr>,
                 st1))
      else handler st)"

subsection \<open>\<open>sanitizePlaylistData\<close> (lines 345 to 351)\<close>

definition trim :: "string \<Rightarrow> string" where
  "trim s = rev (dropWhile is_ws (rev (dropWhile is_ws s)))"

definition sanitizePlaylistData :: "playlist \<Rightarrow> playlist" where
  "sanitizePlaylistData p =
     \<lparr>name = slice (trim (name p)) 0 100,
      description = slice (trim (description p)) 0 300,
      songs = songs p\<rparr>"

subsection \<open>One playlist of the bulk flow (lines 366 to 427)\<close>

text \<open>\<open>trackUris.filter(uri => uri !== undefined)\<close>.\<close>

definition valid_uris :: "string option list \<Rightarrow> string list" where
  "valid_uris trackUris = map the (filter (\<lambda>uri. uri \<noteq> None) trackUris)"

text \<open>
  The loop of lines 400 to 405, from the index \<open>i\<close>: the first failure of a queued call
  leaves the loop. The result comes with the calls made, one for every attempt.
\<close>

function add_batches ::
  "platform \<Rightarrow> string \<Rightarrow> string list \<Rightarrow> nat \<Rightarrow> (js_error + unit) \<times> call list" where
  "add_batches P newId validTrackUris i =
     (if i < length validTrackUris
      then
        let batch = slice validTrackUris i (i + 100);
            made = replicate (attempts (addTracksToPlaylist P newId batch))
                     (AddTracksToPlaylist newId batch)
        in (case queued (addTracksToPlaylist P newId batch) of
              Inl error \<Rightarrow> (Inl error, made)
            | Inr _ \<Rightarrow>
                (case add_batches P newId validTrackUris (i + 100) of
                   (r, later) \<Rightarrow> (r, made @ later)))
      else (Inr (), []))"
  by pat_completeness auto
termination
  by (relation "measure (\<lambda>(P, newId, validTrackUris, i). length validTrackUris - i)") auto

declare add_batches.simps [simp del]

text \<open>
  How the body of the \<open>for\<close> loop ends for one playlist: by \<open>continue\<close>, in the
  \<open>catch\<close> block, or at its end with the new playlist's id and player.
\<close>

datatype step_result = NoValidTracks | Failed js_error | Created string embed

definition process_playlist :: "platform \<Rightarrow> playlist \<Rightarrow> step_result \<times> call list" where
  "process_playlist P p =
     (case findTrackUris P (songs p) of
        (Inl error, searched, units) \<Rightarrow> (Failed error, searched)
      | (Inr trackUris, searched, units) \<Rightarrow>
          let validTrackUris = valid_uris trackUris
          in if length validTrackUris = 0 then (NoValidTracks, searched)
             else
               let sanitizedPlaylist = sanitizePlaylistData p;
                   create = createPlaylist P (name sanitizedPlaylist)
                              (description sanitizedPlaylist);
                   creating = replicate (attempts create)
                                (CreatePlaylist (name sanitizedPlaylist)
                                   (description sanitizedPlaylist))
               in (case queued create of
                     Inl error \<Rightarrow> (Failed error, searched @ creating)
                   | Inr newId \<Rightarrow>
                       (case add_batches P newId validTrackUris 0 of
                          (Inl error, adding) \<Rightarrow> (Failed error, searched @ creating @ adding)
                        | (Inr _, adding) \<Rightarrow>
                            (Created newId
                               \<lparr>embed_name = name sanitizedPlaylist,
                                embed_description = description sanitizedPlaylist,
                                embed_id = newId\<rparr>,
                             searched @ creating @ adding))))"

subsection \<open>The handler of \<open>/preview-playlists\<close> (lines 353 to 507)\<close>

text \<open>The \<open>for\<close> loop over the playlists, with \<open>createdPlaylistIds\<close>, \<open>playlistEmbeds\<close> and
  the calls made so far.\<close>

fun preview_loop ::
  "platform \<Rightarrow> playlist list \<Rightarrow> string list \<times> embed list \<times> call list
     \<Rightarrow> string list \<times> embed list \<times> call list" where
  "preview_loop P [] acc = acc"
| "preview_loop P (p # rest) (createdPlaylistIds, playlistEmbeds, made) =
     (case process_playlist P p of
        (Created newId player, cs) \<Rightarrow>
          preview_loop P rest (createdPlaylistIds @ [newId], playlistEmbeds @ [player], made @ cs)
      | (_, cs) \<Rightarrow> preview_loop P rest (createdPlaylistIds, playlistEmbeds, made @ cs))"

definition no_valid_playlists :: js_error where
  "no_valid_playlists =
     \<lparr>statusCode = None, headers = None, message = ''No valid playlists could be created''\<rparr>"

text \<open>The handler answers and leaves the server in a new state; \<open>createdPlaylistIds\<close> is
  returned with them.\<close>

definition preview_playlists ::
  "platform \<Rightarrow> server \<Rightarrow> response \<times> string list \<times> server" where
  "preview_playlists P st =
     (case refreshTokenIfNeeded P st of
        (Inl error, st1) \<Rightarrow> (\<lparr>status = 500, body = ErrorReport error\<rparr>, [], st1)
      | (Inr _, st1) \<Rightarrow>
          (case readPlaylists P of
             Inl error \<Rightarrow> (\<lparr>status = 500, body = ErrorReport error\<rparr>, [], st1)
           | Inr playlists \<Rightarrow>
               (case preview_loop P playlists ([], [], []) of
                  (createdPlaylistIds, playlistEmbeds, made) \<Rightarrow>
                    if length playlistEmbeds = 0
                    then (\<lparr>status = 500, body = ErrorReport no_valid_playlists\<rparr>,
                          createdPlaylistIds, st1\<lparr>calls := calls st1 @ made\<rparr>)
                    else (\<lparr>status = 200, body = PreviewPage playlistEmbeds\<rparr>,
                          createdPlaylistIds, st1\<lparr>calls := calls st1 @ made\<rparr>))))"

subsection \<open>The handler of \<open>/create-custom-playlist\<close> (lines 509 to 619)\<close>

definition create_custom_playlist :: "platform \<Rightarrow> js_value \<Rightarrow> server \<Rightarrow> response \<times> server" where
  "create_custom_playlist P userPrompt st =
     (case refreshTokenIfNeeded P st of
        (Inl error, st1) \<Rightarrow> (\<lparr>status = 500, body = ErrorReport error\<rparr>, st1)
      | (Inr _, st1) \<Rightarrow>
          if \<not> truthy userPrompt
          then (\<lparr>status = 400, body = Text ''Prompt is required''\<rparr>, st1)
          else
            let st2 = st1\<lparr>calls := calls st1 @ [MessagesCreate userPrompt]\<rparr>
            in (case messagesCreate P userPrompt of
                  Inl error \<Rightarrow> (\<lparr>status = 500, body = ErrorReport error\<rparr>, st2)
                | Inr customPlaylist \<Rightarrow>
                    (case findTrackUris P (songs customPlaylist) of
                       (Inl error, searched, units) \<Rightarrow>
                         (\<lparr>status = 500, body = ErrorReport error\<rparr>,
                          st2\<lparr>calls := calls st2 @ searched\<rparr>)
                     | (Inr trackUris, searched, units) \<Rightarrow>
                         let validTrackUris = valid_uris trackUris;
                             st3 = st2\<lparr>calls := calls st2 @ searched\<rparr>
                         in if length validTrackUris = 0
                            then (\<lparr>status = 404,
                                   body = Text ''No valid tracks found for the custom playlist''\<rparr>,
                                  st3)
                            else
                              let create = createPlaylist P (name customPlaylist)
                                             (description customPlaylist);
                                  st4 = st3\<lparr>calls := calls st3 @
                                          replicate (attempts create)
                                            (CreatePlaylist (name customPlaylist)
                                               (description customPlaylist))\<rparr>
                              in (case queued create of
                                    Inl error \<Rightarrow>
                                      (\<lparr>status = 500, body = ErrorReport error\<rparr>, st4)
                                  | Inr newId \<Rightarrow>
                                      let add = addTracksToPlaylist P newId validTrackUris;
                                          st5 = st4\<lparr>calls := calls st4 @
                                                  replicate (attempts add)
                                                    (AddTracksToPlaylist newId validTrackUris)\<rparr>
                                      in (case queued add of
                                            Inl error \<Rightarrow>
                                              (\<lparr>status = 500, body = ErrorReport error\<rparr>, st5)
                                          | Inr _ \<Rightarrow>
                                              (\<lparr>status = 200,
                                                body = CustomPage
                                                  \<lparr>embed_name = name customPlaylist,
                                                   embed_description = description customPlaylist,
                                                   embed_id = newId\<rparr>\<rparr>,
                                               st5))))))"

text \<open>A request to \<open>POST /create-custom-playlist\<close> with \<open>req.body.prompt = userPrompt\<close>.\<close>

definition post_create_custom_playlist ::
  "platform \<Rightarrow> js_value \<Rightarrow> server \<Rightarrow> response \<times> server" where
  "post_create_custom_playlist P userPrompt =
     with_token_check P ''/create-custom-playlist'' (create_custom_playlist P userPrompt)"

text \<open>The id and player a step of the bulk flow adds to the lists of the handler.\<close>

fun created_of :: "step_result \<Rightarrow> (string \<times> embed) list" where
  "created_of (Created newId player) = [(newId, player)]"
| "created_of NoValidTracks = []"
| "created_of (Failed error) = []"

text \<open>
  An example: a platform that knows one song, creates every playlist and adds every batch
  of tracks, and whose file of suggestions holds six playlists, the third of which has
  only a song the platform does not know; and a server with a token that is valid for long.
\<close>

definition known_song :: song where
  "known_song = \<lparr>title = ''k'', artist = ''b''\<rparr>"

definition mix :: "string \<Rightarrow> song \<Rightarrow> playlist" where
  "mix n s = \<lparr>name = n, description = ''d'', songs = [s]\<rparr>"

definition jukebox :: platform where
  "jukebox =
     offline\<lparr>searchTracks :=
               (\<lambda>q. if q = ''track:k artist:b'' then Inr (Some [''spotify:track:1''])
                    else Inr (Some [])),
             searchArtists := (\<lambda>a. Inr (Some [])),
             createPlaylist := (\<lambda>n d k. Inr (''id:'' @ n)),
             addTracksToPlaylist := (\<lambda>i us k. Inr ()),
             readPlaylists :=
               Inr [mix ''A'' known_song, mix ''B'' known_song, mix ''Z'' some_song,
                    mix ''C'' known_song, mix ''D'' known_song, mix ''E'' known_song]\<rparr>"

definition fresh_server :: server where
  "fresh_server =
     \<lparr>token_file = Some \<lparr>access_token = ''a'', refresh_token = ''r'', expires_at = 10000000\<rparr>,
      token_writes = [], api_access_token = None, api_refresh_token = None,
      ticks = 0, calls = []\<rparr>"

text \<open>A server with no token file.\<close>

definition logged_out :: server where
  "logged_out = fresh_server\<lparr>token_file := None\<rparr>"

text \<open>
  An example: the language model answers every prompt with a playlist whose name has 101
  characters.
\<close>

definition long_name :: string where
  "long_name = replicate 101 CHR ''a''"

definition wordy :: platform where
  "wordy = jukebox\<lparr>messagesCreate := (\<lambda>p. Inr (mix long_name known_song))\<rparr>"

section \<open>Properties of \<open>parseInt\<close> and \<open>exponentialBackoff\<close>\<close>

lemma is_decimal_digit_val: "is_decimal c \<Longrightarrow> digit_val 10 c = Some (of_char c - 48)"
  by (auto simp: is_decimal_def digit_val_def Let_def)

lemma is_decimal_not_ws: "is_decimal c \<Longrightarrow> \<not> is_ws c"
  by (auto simp: is_decimal_def is_ws_def)

lemma is_decimal_not_special:
  "is_decimal c \<Longrightarrow> c \<noteq> CHR ''-'' \<and> c \<noteq> CHR ''+'' \<and> c \<noteq> CHR ''x'' \<and> c \<noteq> CHR ''X''"
  by (auto simp: is_decimal_def)

lemma decimal_no_hex_prefix:
  assumes "\<forall>c\<in>set s. is_decimal c"
  shows "take 2 s \<noteq> ''0x'' \<and> take 2 s \<noteq> ''0X''"
proof (cases s)
  case Nil
  then show ?thesis by simp
next
  case outer: (Cons c t)
  show ?thesis
  proof (cases t)
    case Nil
    then show ?thesis using outer by simp
  next
    case (Cons d u)
    then have "is_decimal d" using assms outer by simp
    then show ?thesis using outer Cons is_decimal_not_special[of d] by auto
  qed
qed

text \<open>On a non-empty string of decimal digits \<open>parseInt\<close> is the number written.\<close>

lemma parseInt_decimal:
  assumes "s \<noteq> []" and "\<forall>c\<in>set s. is_decimal c"
  shows "parseInt s = js_int (int (digits_value 10 s))"
proof -
  obtain c t where s: "s = c # t" using assms(1) by (cases s) auto
  have c: "is_decimal c" using assms(2) s by simp
  have dw: "dropWhile is_ws s = s" using c s by (simp add: is_decimal_not_ws)
  have sg: "take 1 s \<noteq> ''-''" "take 1 s \<noteq> ''+''"
    using is_decimal_not_special[OF c] s by auto
  have hx: "take 2 s \<noteq> ''0x''" "take 2 s \<noteq> ''0X''"
    using decimal_no_hex_prefix[OF assms(2)] by auto
  have tw: "takeWhile (\<lambda>c. digit_val 10 c \<noteq> None) s = s"
    using assms(2) by (simp add: is_decimal_digit_val)
  show ?thesis
    unfolding parseInt_def Let_def dw
    by (simp only: sg hx tw assms(1) if_False simp_thms) simp
qed

lemma parseInt_examples:
  "parseInt ''7'' = Number 7"
  "parseInt '' 12abc'' = Number 12"
  "parseInt ''-0x1F'' = Number (- 31)"
  "parseInt ''Wed, 21 Oct 2015 07:28:00 GMT'' = NaN"
  by (simp_all add: parseInt_def is_ws_def digit_val_def digits_value_def js_int_def)

text \<open>
  When the calls \<open>r, \<dots>, k - 1\<close> are rate limited and call \<open>k\<close> is the last one the loop
  can make or is not rate limited, the loop started at \<open>retries = r\<close> ends with the
  outcome of call \<open>k\<close>, after the delays of the calls before it.
\<close>

lemma backoff_loop_run:
  assumes "int k \<le> maxRetries"
    and "\<forall>j<k. \<exists>e. fn j = Inl e \<and> statusCode e = Some 429 \<and> headers e \<noteq> None"
    and "int k = maxRetries \<or> (\<forall>e. fn k = Inl e \<longrightarrow> statusCode e \<noteq> Some 429)"
    and "r \<le> k"
  shows "backoff_loop fn maxRetries initialDelay r =
           (fn k, map (\<lambda>j. case fn j of Inl e \<Rightarrow>
                              (case retryDelay e initialDelay j of Inr d \<Rightarrow> d)) [r..<k])"
  using assms(4)
proof (induction "k - r" arbitrary: r)
  case 0
  then have rk: "r = k" by simp
  show ?case
  proof (cases "fn k")
    case (Inr v)
    then show ?thesis using rk by (subst backoff_loop.simps) simp
  next
    case (Inl e)
    then show ?thesis using rk assms(1,3) by (subst backoff_loop.simps) auto
  qed
next
  case (Suc n)
  then have lt: "r < k" and le: "Suc r \<le> k" and n: "n = k - Suc r" by auto
  from assms(2) lt obtain e h
    where e: "fn r = Inl e" "statusCode e = Some 429" "headers e = Some h" by auto
  have IH: "backoff_loop fn maxRetries initialDelay (Suc r) =
           (fn k, map (\<lambda>j. case fn j of Inl e \<Rightarrow>
                              (case retryDelay e initialDelay j of Inr d \<Rightarrow> d)) [Suc r..<k])"
    using Suc.hyps(1)[OF n le] .
  obtain d where d: "retryDelay e initialDelay r = Inr d"
    using e by (simp add: retryDelay_def)
  have "int r < maxRetries" using lt assms(1) by simp
  then show ?case
    using e d IH lt by (subst backoff_loop.simps) (simp add: upt_conv_Cons)
qed

text \<open>A rate-limited failure with no \<open>headers\<close> object ends the loop with a \<open>TypeError\<close>.\<close>

lemma backoff_loop_no_headers:
  assumes "fn r = Inl e" and "statusCode e = Some 429" and "headers e = None"
    and "int r < maxRetries"
  shows "backoff_loop fn maxRetries initialDelay r = (Inl typeError, [])"
  using assms by (subst backoff_loop.simps) (simp add: retryDelay_def)

lemma js_int_exact: "0 \<le> n \<Longrightarrow> n \<le> 2 ^ 53 \<Longrightarrow> js_int n = Number n"
  by (simp add: js_int_def)

text \<open>The first five delays of the exponential backoff from 1000 ms are exact.\<close>

lemma backoff_delay_exact:
  assumes "j < 5"
  shows "times (js_int (2 ^ j)) 1000 = Number (1000 * 2 ^ j)"
proof -
  have "(2::int) ^ j \<le> 2 ^ 4" using assms by (intro power_increasing) auto
  then have b: "(2::int) ^ j \<le> 16" by simp
  have 1: "js_int (2 ^ j) = Number (2 ^ j)" using b by (intro js_int_exact) auto
  have 2: "js_int (2 ^ j * 1000) = Number (2 ^ j * 1000)" using b by (intro js_int_exact) auto
  show ?thesis by (simp add: 1 2 mult.commute)
qed

text \<open>A hint of \<open>N\<close> seconds in decimal gives \<open>N * 1000\<close> ms, as long as that is exact.\<close>

lemma hint_delay_exact:
  assumes "s \<noteq> []" and "\<forall>c\<in>set s. is_decimal c"
    and "int (digits_value 10 s) * 1000 \<le> 2 ^ 53"
  shows "times (parseInt s) 1000 = Number (int (digits_value 10 s) * 1000)"
proof -
  have n: "int (digits_value 10 s) \<le> 2 ^ 53" using assms(3) by simp
  have 1: "js_int (int (digits_value 10 s)) = Number (int (digits_value 10 s))"
    using n by (intro js_int_exact) auto
  have 2: "js_int (int (digits_value 10 s) * 1000) = Number (int (digits_value 10 s) * 1000)"
    using assms(3) by (intro js_int_exact) auto
  show ?thesis by (simp add: parseInt_decimal[OF assms(1,2)] 1 2)
qed

text \<open>
  The retry policy on failures that have headers. Let the first \<open>k \<le> 5\<close> calls of a unit
  of work fail with status 429, each failure an error object that has headers, and let
  call \<open>k\<close> be the sixth call or anything but a failure with status 429. Then
  \<open>exponentialBackoff\<close> with its default arguments settles with the outcome of call \<open>k\<close>
  as it is: a success, a failure without the 429 signal (propagated at once, with no
  further call), or, after five retries, the failure of the last call. It waits exactly
  \<open>k\<close> times, so at most five retries are made. The delay after call \<open>j\<close> is
  \<open>1000 * 2 ^ j\<close> ms when the retry-after header is absent or empty, and \<open>parseInt\<close> of
  the header times 1000 otherwise: a header of \<open>N\<close> seconds written in decimal gives
  exactly \<open>N * 1000\<close> ms, as long as \<open>N * 1000\<close> is at most \<open>2 ^ 53\<close>.
\<close>

theorem exponentialBackoff_retry_policy:
  assumes "k \<le> 5"
    and "\<forall>j<k. \<exists>e. fn j = Inl e \<and> statusCode e = Some 429 \<and> headers e \<noteq> None"
    and "k = 5 \<or> (\<forall>e. fn k = Inl e \<longrightarrow> statusCode e \<noteq> Some 429)"
  shows "fst (exponentialBackoff fn 5 1000) = fn k
       \<and> length (snd (exponentialBackoff fn 5 1000)) = k
       \<and> (\<forall>j<k. \<forall>e h. fn j = Inl e \<and> headers e = Some h \<longrightarrow>
             snd (exponentialBackoff fn 5 1000) ! j =
               (case map_of h ''retry-after'' of
                  None \<Rightarrow> Number (1000 * 2 ^ j)
                | Some s \<Rightarrow>
                    if s = [] then Number (1000 * 2 ^ j)
                    else if (\<forall>c\<in>set s. is_decimal c)
                            \<and> int (digits_value 10 s) * 1000 \<le> 2 ^ 53
                    then Number (int (digits_value 10 s) * 1000)
                    else times (parseInt s) 1000))"
proof -
  let ?d = "\<lambda>j. case fn j of Inl e \<Rightarrow> (case retryDelay e 1000 j of Inr d \<Rightarrow> d)"
  have run: "exponentialBackoff fn 5 1000 = (fn k, map ?d [0..<k])"
    unfolding exponentialBackoff_def
    using backoff_loop_run[of k 5 fn 0 1000] assms by simp
  have delays: "?d j =
               (case map_of h ''retry-after'' of
                  None \<Rightarrow> Number (1000 * 2 ^ j)
                | Some s \<Rightarrow>
                    if s = [] then Number (1000 * 2 ^ j)
                    else if (\<forall>c\<in>set s. is_decimal c)
                            \<and> int (digits_value 10 s) * 1000 \<le> 2 ^ 53
                    then Number (int (digits_value 10 s) * 1000)
                    else times (parseInt s) 1000)"
    if "fn j = Inl e" "headers e = Some h" "j < k" for j e h
  proof -
    have j: "j < 5" using that(3) assms(1) by simp
    show ?thesis
      using that(1,2)
      by (auto simp: retryDelay_def backoff_delay_exact[OF j] hint_delay_exact
          split: option.splits)
  qed
  show ?thesis
    using run delays by simp
qed

theorem exponentialBackoff_retry_policy_witness:
  "fst (exponentialBackoff example_unit 5 1000)
     = Inl \<lparr>statusCode = Some 500, headers = Some [], message = ''Internal Server Error''\<rparr>
   \<and> length (snd (exponentialBackoff example_unit 5 1000)) = 2
   \<and> snd (exponentialBackoff example_unit 5 1000) ! 0 = Number 7000
   \<and> snd (exponentialBackoff example_unit 5 1000) ! 1 = Number 2000"
proof -
  have h1: "(2::nat) \<le> 5" by simp
  have h2: "\<forall>j<2. \<exists>e. example_unit j = Inl e \<and> statusCode e = Some 429 \<and> headers e \<noteq> None"
    by (simp add: example_unit_def)
  have h3: "(2::nat) = 5 \<or> (\<forall>e. example_unit 2 = Inl e \<longrightarrow> statusCode e \<noteq> Some 429)"
    by (auto simp: example_unit_def)
  have d7: "digits_value 10 ''7'' = 7" by (simp add: digits_value_def digit_val_def)
  have dec: "\<forall>c\<in>set ''7''. is_decimal c" by (simp add: is_decimal_def)
  from exponentialBackoff_retry_policy[OF h1 h2 h3]
  have *: "fst (exponentialBackoff example_unit 5 1000) = example_unit 2"
    "length (snd (exponentialBackoff example_unit 5 1000)) = 2"
    "\<And>j e h. j < 2 \<Longrightarrow> example_unit j = Inl e \<Longrightarrow> headers e = Some h \<Longrightarrow>
             snd (exponentialBackoff example_unit 5 1000) ! j =
               (case map_of h ''retry-after'' of
                  None \<Rightarrow> Number (1000 * 2 ^ j)
                | Some s \<Rightarrow>
                    if s = [] then Number (1000 * 2 ^ j)
                    else if (\<forall>c\<in>set s. is_decimal c)
                            \<and> int (digits_value 10 s) * 1000 \<le> 2 ^ 53
                    then Number (int (digits_value 10 s) * 1000)
                    else times (parseInt s) 1000)"
    by blast+
  have a: "snd (exponentialBackoff example_unit 5 1000) ! 0 = Number 7000"
    using *(3)[of 0 "\<lparr>statusCode = Some 429, headers = Some [(''retry-after'', ''7'')], message = ''Too Many Requests''\<rparr>" "[(''retry-after'', ''7'')]"]
    by (simp add: example_unit_def d7 dec)
  have b: "snd (exponentialBackoff example_unit 5 1000) ! 1 = Number 2000"
    using *(3)[of 1 "\<lparr>statusCode = Some 429, headers = Some [], message = ''Too Many Requests''\<rparr>" "[]"]
    by (simp add: example_unit_def)
  show ?thesis using *(1,2) a b by (simp add: example_unit_def)
qed

text \<open>
  Claim C1 does not hold of the code for a failure that carries the 429 signal in an error
  object without \<open>headers\<close>. Such a failure is not retried, with neither the
  retry-after delay nor the exponential backoff, although the next call of the unit of
  work would succeed: reading the header throws, and what leaves the wrapper is that
  \<open>TypeError\<close>, not the failure of the unit of work.
\<close>

theorem rate_limit_without_headers_not_retried:
  "headerless_unit 0
     = Inl \<lparr>statusCode = Some 429, headers = None, message = ''Too Many Requests''\<rparr>
   \<and> headerless_unit 1 = Inr ()
   \<and> exponentialBackoff headerless_unit 5 1000 = (Inl typeError, [])
   \<and> typeError \<noteq> \<lparr>statusCode = Some 429, headers = None, message = ''Too Many Requests''\<rparr>"
  by (simp add: headerless_unit_def exponentialBackoff_def backoff_loop.simps retryDelay_def
      typeError_def)

section \<open>Properties of the track resolver\<close>

lemma found_condition_iff: "found_condition x = (\<exists>xs. x = Some xs \<and> 0 < length xs)"
  by (cases x) (auto simp: found_condition_def)

lemma count_positive_iff: "count_positive x = (\<exists>xs. x = Some xs \<and> 0 < length xs)"
  by (cases x) (auto simp: count_positive_def)

text \<open>
  Claim C3 as stated fails: when the exact search answers with \<open>tracks\<close> present and no
  items, the condition of line 302 is false and the resolver goes on to the artist search.
\<close>

theorem found_branch_on_zero_count_counterexample:
  "\<not> found_condition (Some ([] :: string list))
   \<and> searchTracks empty_catalogue (exact_query some_song) = Inr (Some [])
   \<and> resolve_song empty_catalogue some_song
       = (None, [SearchTracks ''track:t artist:a'', SearchArtists ''a''])"
  by (simp add: found_condition_def resolve_song_def empty_catalogue_def offline_def
      some_song_def exact_query_def)

lemma resolve_song_not_found:
  assumes "searchTracks P (exact_query s) = Inr r" and "\<not> found_condition r"
  shows "\<exists>u rest. resolve_song P s
           = (u, SearchTracks (exact_query s) # SearchArtists (artist s) # rest)"
proof (cases "searchArtists P (artist s)")
  case (Inl e)
  then show ?thesis using assms by (simp add: resolve_song_def)
next
  case (Inr artistSearch)
  show ?thesis
  proof (cases "found_condition artistSearch")
    case False
    then show ?thesis using assms Inr by (simp add: resolve_song_def)
  next
    case True
    then obtain a as where a: "artistSearch = Some (a # as)"
      by (auto simp: found_condition_iff neq_Nil_conv)
    show ?thesis
    proof (cases "getArtistTopTracks P a ''US''")
      case (Inl e)
      then show ?thesis using assms Inr True a by (simp add: resolve_song_def item_at_def)
    next
      case top: (Inr topTracks)
      then show ?thesis using assms Inr True a by (simp add: resolve_song_def item_at_def)
    qed
  qed
qed

text \<open>
  Claim C3, amended. The condition of line 302 is read as \<open>count ?? (0 > 0)\<close>: its value
  is \<open>false\<close> when the field \<open>tracks\<close> is absent and the count itself when it is present.
  As the count 0 is falsy, the found branch is taken exactly when \<open>tracks\<close> is present with
  a count greater than 0, as \<open>(count ?? 0) > 0\<close> would have it: then the first item is the
  result and no other call is made. When \<open>tracks\<close> is absent or has no items, the resolver
  falls back to the artist search.
\<close>

theorem exact_match_found_branch:
  assumes "searchTracks P (exact_query s) = Inr r"
  shows "nullish (optional_length r) (JBoolean ((0::int) > 0))
           = (case r of None \<Rightarrow> JBoolean False | Some xs \<Rightarrow> JNumber (int (length xs)))
       \<and> found_condition r = (\<exists>xs. r = Some xs \<and> 0 < length xs)
       \<and> found_condition r = count_positive r
       \<and> (\<forall>x xs. r = Some (x # xs) \<longrightarrow>
             resolve_song P s = (Some x, [SearchTracks (exact_query s)]))
       \<and> (r = None \<or> r = Some [] \<longrightarrow>
             take 2 (snd (resolve_song P s))
               = [SearchTracks (exact_query s), SearchArtists (artist s)])"
proof -
  have 1: "nullish (optional_length r) (JBoolean ((0::int) > 0))
           = (case r of None \<Rightarrow> JBoolean False | Some xs \<Rightarrow> JNumber (int (length xs)))"
    by (cases r) auto
  have 2: "found_condition r = (\<exists>xs. r = Some xs \<and> 0 < length xs)"
    by (rule found_condition_iff)
  have 3: "found_condition r = count_positive r"
    by (simp only: found_condition_iff count_positive_iff)
  have 4: "resolve_song P s = (Some x, [SearchTracks (exact_query s)])"
    if "r = Some (x # xs)" for x xs
    using that assms by (simp add: resolve_song_def found_condition_iff item_at_def)
  have 5: "take 2 (snd (resolve_song P s))
             = [SearchTracks (exact_query s), SearchArtists (artist s)]"
    if "r = None \<or> r = Some []"
  proof -
    have "\<not> found_condition r" using that by (auto simp: found_condition_iff)
    from resolve_song_not_found[OF assms this] show ?thesis by auto
  qed
  from 1 2 3 4 5 show ?thesis by (intro conjI allI impI) assumption+
qed

theorem exact_match_found_branch_witness:
  "found_condition (Some ([] :: string list)) = False
   \<and> take 2 (snd (resolve_song empty_catalogue some_song))
       = [SearchTracks (exact_query some_song), SearchArtists ''a'']"
proof -
  have h: "searchTracks empty_catalogue (exact_query some_song) = Inr (Some [])"
    by (simp add: empty_catalogue_def offline_def)
  have a: "artist some_song = ''a''" by (simp add: some_song_def)
  from exact_match_found_branch[OF h] show ?thesis
    unfolding a by simp
qed

lemma concat_batches_from: "concat (batches_from xs i) = drop i xs"
proof (induction xs i rule: batches_from.induct)
  case (1 input i)
  show ?case
  proof (cases "i < length input")
    case True
    have "slice input i (i + batchSize) @ drop (i + batchSize) input = drop i input"
      by (simp add: slice_def add.commute[of i] flip: drop_drop)
    then show ?thesis using True "1.IH" by (subst batches_from.simps) simp
  next
    case False
    then show ?thesis by (subst batches_from.simps) simp
  qed
qed

lemma length_batches_from:
  "b \<in> set (batches_from xs i) \<Longrightarrow> 0 < length b \<and> length b \<le> 20"
proof (induction xs i rule: batches_from.induct)
  case (1 input i)
  show ?case
  proof (cases "i < length input")
    case True
    then have "b = slice input i (i + batchSize) \<or> b \<in> set (batches_from input (i + batchSize))"
      using "1.prems" by (subst (asm) batches_from.simps) simp
    then show ?thesis
    proof
      assume "b = slice input i (i + batchSize)"
      then show ?thesis using True by (simp add: slice_def batchSize_def)
    next
      assume "b \<in> set (batches_from input (i + batchSize))"
      then show ?thesis using "1.IH" True by simp
    qed
  next
    case False
    then show ?thesis using "1.prems" by (subst (asm) batches_from.simps) simp
  qed
qed

lemma batches_of_25:
  assumes "length xs = 25"
  shows "map length (batches_from xs 0) = [20, 5]"
  using assms
  by (simp add: batches_from.simps[of xs 0] batches_from.simps[of xs 20]
      batches_from.simps[of xs 40] slice_def batchSize_def)

lemma queued_batch_task:
  "queued (batch_task P b) = Inr (map (\<lambda>s. fst (resolve_song P s)) b)"
  by (simp add: queued_def exponentialBackoff_def batch_task_def backoff_loop.simps)

lemma attempts_batch_task: "attempts (batch_task P b) = 1"
  by (simp add: attempts_def exponentialBackoff_def batch_task_def backoff_loop.simps)

lemma promise_all_resolved: "promise_all (map (\<lambda>b. Inr (f b)) bs) = Inr (map f bs)"
  by (induction bs) auto

lemma concat_map_concat:
  "concat (map (\<lambda>b. concat (map f b)) bs) = concat (map f (concat bs))"
  by (induction bs) auto

lemma findTrackUris_eq:
  "findTrackUris P input =
     (Inr (map (\<lambda>s. fst (resolve_song P s)) input),
      concat (map (\<lambda>s. snd (resolve_song P s)) input),
      map (\<lambda>batch. batch_task P batch) (batches_from input 0))"
proof -
  have "concat (map (\<lambda>b. map (\<lambda>s. fst (resolve_song P s)) b) (batches_from input 0))
          = map (\<lambda>s. fst (resolve_song P s)) (concat (batches_from input 0))"
    by (simp add: map_concat)
  moreover have "concat (map (\<lambda>b. batch_calls P b) (batches_from input 0))
          = concat (map (\<lambda>s. snd (resolve_song P s)) (concat (batches_from input 0)))"
    unfolding batch_calls_def by (rule concat_map_concat)
  ultimately show ?thesis
    by (simp add: findTrackUris_def queued_batch_task attempts_batch_task
        promise_all_resolved concat_batches_from comp_def Let_def)
qed

lemma unit_size_batch_task: "unit_size (batch_task P batch) = length batch"
  by (simp add: unit_size_def batch_task_def)

text \<open>
  Claim C5. For every input list of songs, \<open>findTrackUris\<close> resolves with one optional
  identifier per song, in the order of the input: entry \<open>i\<close> is the resolution of song
  \<open>i\<close>. It hands one unit of work to the queue for every batch, in order, and the unit
  of a batch resolves the songs of that batch. The batches are consecutive pieces of the
  input, each of at least one and at most 20 songs. For an input of 25 songs exactly two
  units are handed to the queue, which resolve 20 and 5 songs.
\<close>

theorem findTrackUris_same_length_and_batches:
  "fst (findTrackUris P input) = Inr (map (\<lambda>s. fst (resolve_song P s)) input)
   \<and> (\<exists>uris. fst (findTrackUris P input) = Inr uris \<and> length uris = length input)
   \<and> snd (snd (findTrackUris P input))
       = map (\<lambda>batch. batch_task P batch) (batches_from input 0)
   \<and> map unit_size (snd (snd (findTrackUris P input))) = map length (batches_from input 0)
   \<and> concat (batches_from input 0) = input
   \<and> (\<forall>b\<in>set (batches_from input 0). 0 < length b \<and> length b \<le> 20)
   \<and> (length input = 25 \<longrightarrow>
         length (snd (snd (findTrackUris P input))) = 2
         \<and> map unit_size (snd (snd (findTrackUris P input))) = [20, 5])"
proof -
  have sizes: "map unit_size (snd (snd (findTrackUris P input)))
                 = map length (batches_from input 0)"
    by (simp add: findTrackUris_eq comp_def unit_size_batch_task)
  have two: "length (snd (snd (findTrackUris P input))) = 2
         \<and> map unit_size (snd (snd (findTrackUris P input))) = [20, 5]"
    if "length input = 25"
  proof -
    have m: "map length (batches_from input 0) = [20, 5]" using that by (rule batches_of_25)
    have "length (map unit_size (snd (snd (findTrackUris P input)))) = 2"
      unfolding sizes m by simp
    then have "length (snd (snd (findTrackUris P input))) = 2"
      by (simp only: length_map)
    then show ?thesis using sizes m by simp
  qed
  show ?thesis
    using length_batches_from[of _ input 0] sizes two
    by (simp add: findTrackUris_eq concat_batches_from)
qed

theorem findTrackUris_same_length_and_batches_witness:
  "map unit_size (snd (snd (findTrackUris offline (replicate 25 some_song)))) = [20, 5]
   \<and> fst (findTrackUris offline (replicate 25 some_song)) = Inr (replicate 25 None)"
proof -
  have r: "fst (resolve_song offline some_song) = None"
    by (simp add: resolve_song_def offline_def)
  have l: "length (replicate 25 some_song) = 25" by simp
  from findTrackUris_same_length_and_batches[of offline "replicate 25 some_song"] l
  have "map unit_size (snd (snd (findTrackUris offline (replicate 25 some_song)))) = [20, 5]"
    and "fst (findTrackUris offline (replicate 25 some_song))
           = Inr (map (\<lambda>s. fst (resolve_song offline s)) (replicate 25 some_song))"
    by blast+
  then show ?thesis by (simp add: r)
qed

section \<open>Properties of the token refresh\<close>

text \<open>
  Claim C4. With a stored token record, the refresh exchange is made if and only if fewer
  than 300000 ms remain until the stored expiry at the time of the check (the expiry may
  have passed), and it is made with the stored refresh token. When the refresh succeeds,
  the record written has the granted access token, the stored refresh token unchanged and
  the expiry computed from the grant. When no refresh is needed, nothing is written and
  the file stays as it is. Every record written keeps the stored refresh token.
\<close>

theorem refreshTokenIfNeeded_margin:
  assumes "token_file st = Some td"
  shows "(calls (snd (refreshTokenIfNeeded P st)) \<noteq> calls st)
           = (expires_at td - clock P (ticks st) < 300000)
       \<and> calls (snd (refreshTokenIfNeeded P st))
           = calls st @ (if expires_at td - clock P (ticks st) < 300000
                         then [RefreshAccessToken (refresh_token td)] else [])
       \<and> (\<forall>g. expires_at td - clock P (ticks st) < 300000
              \<and> refreshAccessToken P (refresh_token td) = Inr g
              \<and> fst (refreshTokenIfNeeded P st) = Inr ()
            \<longrightarrow> token_file (snd (refreshTokenIfNeeded P st))
                  = Some \<lparr>access_token = granted_access_token g,
                          refresh_token = refresh_token td,
                          expires_at = clock P (ticks st + 1) + expires_in g * 1000\<rparr>
                \<and> token_writes (snd (refreshTokenIfNeeded P st))
                  = token_writes st @ [\<lparr>access_token = granted_access_token g,
                          refresh_token = refresh_token td,
                          expires_at = clock P (ticks st + 1) + expires_in g * 1000\<rparr>])
       \<and> (\<not> expires_at td - clock P (ticks st) < 300000
            \<longrightarrow> fst (refreshTokenIfNeeded P st) = Inr ()
              \<and> token_file (snd (refreshTokenIfNeeded P st)) = token_file st
              \<and> token_writes (snd (refreshTokenIfNeeded P st)) = token_writes st)
       \<and> (\<forall>w\<in>set (token_writes (snd (refreshTokenIfNeeded P st))) - set (token_writes st).
             refresh_token w = refresh_token td)"
proof (cases "expires_at td - clock P (ticks st) < 300000")
  case False
  then show ?thesis using assms by (simp add: refreshTokenIfNeeded_def Let_def)
next
  case True
  then have m: "clock P (ticks st) > expires_at td - 300000" by simp
  show ?thesis
  proof (cases "refreshAccessToken P (refresh_token td)")
    case (Inl e)
    then show ?thesis using assms True m by (simp add: refreshTokenIfNeeded_def Let_def)
  next
    case (Inr g)
    then show ?thesis using assms True m by (auto simp: refreshTokenIfNeeded_def Let_def)
  qed
qed

theorem refreshTokenIfNeeded_margin_witness:
  "token_file (snd (refreshTokenIfNeeded granting expiring_server))
     = Some \<lparr>access_token = ''new'', refresh_token = ''r'', expires_at = 4600000\<rparr>
   \<and> calls (snd (refreshTokenIfNeeded granting expiring_server)) = [RefreshAccessToken ''r'']"
proof -
  have h: "token_file expiring_server
             = Some \<lparr>access_token = ''old'', refresh_token = ''r'', expires_at = 1001000\<rparr>"
    by (simp add: expiring_server_def)
  have ok: "fst (refreshTokenIfNeeded granting expiring_server) = Inr ()"
    by (simp add: refreshTokenIfNeeded_def granting_def offline_def expiring_server_def Let_def)
  from refreshTokenIfNeeded_margin[OF h, of granting] ok show ?thesis
    by (simp add: granting_def offline_def expiring_server_def)
qed

section \<open>Properties of the liked-songs fetch\<close>

lemma map_items_all:
  "\<forall>i\<in>set xs. track_artists i \<noteq> [] \<Longrightarrow> map_items xs = Inr (map liked_of xs)"
  by (induction xs) (auto simp: to_liked_def liked_of_def split: list.splits)

lemma liked_songs_loop_run:
  assumes pages: "\<forall>off. getMySavedTracks P 50 off = Inr \<lparr>total = T off, items = page off\<rparr>"
    and artists: "\<forall>off. \<forall>i\<in>set (page off). track_artists i \<noteq> []"
    and more: "\<forall>j<n. int (50 * j + 50) < T (50 * j)"
    and last: "\<not> int (50 * n + 50) < T (50 * n)"
    and "k \<le> n"
  shows "liked_songs_loop P acc (50 * k) reqs =
           Some (Inr (acc @ concat (map (\<lambda>j. map liked_of (page (50 * j))) [k..<Suc n])),
                 reqs @ map (\<lambda>j. GetMySavedTracks 50 (50 * j)) [k..<Suc n])"
  using assms(5)
proof (induction "n - k" arbitrary: k acc reqs)
  case 0
  then have e: "k = n" by simp
  have mi: "map_items (page (50 * n)) = Inr (map liked_of (page (50 * n)))"
    using artists by (simp add: map_items_all)
  show ?case
    unfolding e
    apply (subst liked_songs_loop.simps)
    using pages mi last
    by (simp add: limit_def)
next
  case (Suc m)
  have mi: "map_items (page (50 * k)) = Inr (map liked_of (page (50 * k)))"
    using artists by (simp add: map_items_all)
  have lt: "k < n" using Suc.hyps(2) by simp
  then have c: "int (50 * k + 50) < T (50 * k)" using more by simp
  have m: "m = n - Suc k" using Suc.hyps(2) by simp
  have le: "Suc k \<le> n" using lt by simp
  have IH: "liked_songs_loop P (acc @ map liked_of (page (50 * k))) (50 * Suc k)
                (reqs @ [GetMySavedTracks 50 (50 * k)]) =
           Some (Inr ((acc @ map liked_of (page (50 * k)))
                        @ concat (map (\<lambda>j. map liked_of (page (50 * j))) [Suc k..<Suc n])),
                 (reqs @ [GetMySavedTracks 50 (50 * k)])
                        @ map (\<lambda>j. GetMySavedTracks 50 (50 * j)) [Suc k..<Suc n])"
    using Suc.hyps(1)[OF m le] .
  have s: "50 * k + 50 = 50 * Suc k" by simp
  have u: "[k..<Suc n] = k # [Suc k..<Suc n]" using lt by (simp add: upt_conv_Cons)
  show ?case
    apply (subst liked_songs_loop.simps)
    using pages mi c IH
    by (simp add: limit_def s u del: mult_Suc_right upt_Suc)
qed

text \<open>
  Claim C6. Let every page request succeed, every saved track have an artist, the first
  \<open>n\<close> pages each report a total beyond the next offset and the page after them a total
  that the next offset reaches. Then the liked-songs fetch returns after exactly \<open>n + 1\<close>
  requests of page size 50, at the offsets 0, 50, 100, \<dots> in this order, with the pages
  concatenated in order. When the platform reports the total 120, exactly three requests
  are made, at the offsets 0, 50 and 100, and pages of 50, 50 and 20 items give a result of
  length 120.
\<close>

theorem getAllLikedSongs_pagination:
  assumes "\<forall>off. getMySavedTracks P 50 off = Inr \<lparr>total = T off, items = page off\<rparr>"
    and "\<forall>off. \<forall>i\<in>set (page off). track_artists i \<noteq> []"
    and "\<forall>j<n. int (50 * j + 50) < T (50 * j)"
    and "\<not> int (50 * n + 50) < T (50 * n)"
  shows "getAllLikedSongs P =
           Some (Inr (concat (map (\<lambda>j. map liked_of (page (50 * j))) [0..<Suc n])),
                 map (\<lambda>j. GetMySavedTracks 50 (50 * j)) [0..<Suc n])
       \<and> ((\<forall>off. T off = 120) \<longrightarrow>
            getAllLikedSongs P =
              Some (Inr (map liked_of (page 0) @ map liked_of (page 50) @ map liked_of (page 100)),
                    [GetMySavedTracks 50 0, GetMySavedTracks 50 50, GetMySavedTracks 50 100]))
       \<and> ((\<forall>off. T off = 120) \<and> length (page 0) = 50 \<and> length (page 50) = 50
            \<and> length (page 100) = 20 \<longrightarrow>
            (\<exists>found. getAllLikedSongs P =
               Some (Inr found,
                     [GetMySavedTracks 50 0, GetMySavedTracks 50 50, GetMySavedTracks 50 100])
              \<and> length found = 120))"
proof -
  have run: "getAllLikedSongs P =
           Some (Inr (concat (map (\<lambda>j. map liked_of (page (50 * j))) [0..<Suc n])),
                 map (\<lambda>j. GetMySavedTracks 50 (50 * j)) [0..<Suc n])"
    unfolding getAllLikedSongs_def
    using liked_songs_loop_run[OF assms, of 0 "[]" "[]"] by simp
  have two: "n = 2" if c: "\<forall>off. T off = 120"
  proof -
    have "\<not> int (50 * n + 50) < 120" using assms(4) c by simp
    then have ge: "2 \<le> n" by simp
    have "n \<le> 2"
    proof (rule ccontr)
      assume "\<not> n \<le> 2"
      then have "2 < n" by simp
      then have "int (50 * 2 + 50) < T (50 * 2)" using assms(3) by blast
      then show False using c by simp
    qed
    then show ?thesis using ge by simp
  qed
  have u: "[0..<3] = [0, 1, 2::nat]" by (simp add: upt_conv_Cons)
  have at120: "getAllLikedSongs P =
              Some (Inr (map liked_of (page 0) @ map liked_of (page 50) @ map liked_of (page 100)),
                    [GetMySavedTracks 50 0, GetMySavedTracks 50 50, GetMySavedTracks 50 100])"
    if "\<forall>off. T off = 120"
    using run two[OF that] by (simp add: u)
  have len: "\<exists>found. getAllLikedSongs P =
               Some (Inr found,
                     [GetMySavedTracks 50 0, GetMySavedTracks 50 50, GetMySavedTracks 50 100])
              \<and> length found = 120"
    if "(\<forall>off. T off = 120) \<and> length (page 0) = 50 \<and> length (page 50) = 50
          \<and> length (page 100) = 20"
    using at120 that by simp
  from run at120 len show ?thesis
    by (intro conjI allI impI) (assumption | blast)+
qed

theorem getAllLikedSongs_pagination_witness:
  "\<exists>found. getAllLikedSongs library_120 =
      Some (Inr found, [GetMySavedTracks 50 0, GetMySavedTracks 50 50, GetMySavedTracks 50 100])
    \<and> length found = 120"
proof -
  let ?page = "\<lambda>off. map library_item [off..<min (off + 50) 120]"
  have h1: "\<forall>off. getMySavedTracks library_120 50 off
              = Inr \<lparr>total = (\<lambda>off. 120) off, items = ?page off\<rparr>"
    by (simp add: library_120_def)
  have h2: "\<forall>off. \<forall>i\<in>set (?page off). track_artists i \<noteq> []"
    by (simp add: library_item_def)
  have h3: "\<forall>j<2. int (50 * j + 50) < (\<lambda>off. 120) (50 * j)" by auto
  have h4: "\<not> int (50 * 2 + 50) < (\<lambda>off. 120) (50 * 2)" by simp
  have l: "length (?page 0) = 50 \<and> length (?page 50) = 50 \<and> length (?page 100) = 20"
    by simp
  have c: "\<forall>off::nat. (120::int) = 120" by simp
  from getAllLikedSongs_pagination[OF h1 h2 h3 h4] l c show ?thesis by blast
qed

section \<open>Properties of the bulk flow\<close>

lemma queued_first_success:
  assumes "fn 0 = Inr v"
  shows "queued fn = Inr v" and "attempts fn = 1"
  using assms
  by (simp_all add: queued_def attempts_def exponentialBackoff_def backoff_loop.simps)

lemma resolve_song_calls:
  "c \<in> set (snd (resolve_song P s)) \<Longrightarrow>
     (\<exists>q. c = SearchTracks q) \<or> (\<exists>a. c = SearchArtists a) \<or> (\<exists>a m. c = GetArtistTopTracks a m)"
  unfolding resolve_song_def
  by (auto split: sum.splits option.splits if_splits)

lemma findTrackUris_calls:
  assumes "c \<in> set (fst (snd (findTrackUris P input)))"
  shows "(\<exists>q. c = SearchTracks q) \<or> (\<exists>a. c = SearchArtists a) \<or> (\<exists>a m. c = GetArtistTopTracks a m)"
proof -
  from assms obtain s where "c \<in> set (snd (resolve_song P s))"
    by (auto simp: findTrackUris_eq)
  then show ?thesis by (rule resolve_song_calls)
qed

lemma valid_uris_none: "(\<forall>u\<in>set us. u = None) \<Longrightarrow> valid_uris us = []"
  by (induction us) (auto simp: valid_uris_def)

lemma preview_loop_eq:
  "preview_loop P ps (ids, players, made) =
     (ids @ map fst (concat (map (\<lambda>p. created_of (fst (process_playlist P p))) ps)),
      players @ map snd (concat (map (\<lambda>p. created_of (fst (process_playlist P p))) ps)),
      made @ concat (map (\<lambda>p. snd (process_playlist P p)) ps))"
proof (induction ps arbitrary: ids players made)
  case Nil
  then show ?case by simp
next
  case (Cons p ps)
  obtain r cs where r: "process_playlist P p = (r, cs)" by (cases "process_playlist P p")
  show ?case by (cases r) (simp_all add: r Cons.IH)
qed

lemma all_created_length:
  "\<forall>p\<in>set ps. \<exists>i e. fst (process_playlist P p) = Created i e \<Longrightarrow>
     length (concat (map (\<lambda>p. created_of (fst (process_playlist P p))) ps)) = length ps"
  by (induction ps) auto

lemma process_playlist_no_valid:
  assumes "fst (findTrackUris P (songs p)) = Inr uris" and "\<forall>u\<in>set uris. u = None"
  shows "process_playlist P p = (NoValidTracks, fst (snd (findTrackUris P (songs p))))"
proof -
  obtain cs us where "findTrackUris P (songs p) = (Inr uris, cs, us)"
    using assms(1) by (cases "findTrackUris P (songs p)") auto
  then show ?thesis
    using valid_uris_none[OF assms(2)] by (simp add: process_playlist_def)
qed

lemma process_playlist_create_fails:
  assumes "fst (findTrackUris P (songs p)) = Inr uris" and "valid_uris uris \<noteq> []"
    and "queued (createPlaylist P (name (sanitizePlaylistData p))
                   (description (sanitizePlaylistData p))) = Inl e"
  shows "fst (process_playlist P p) = Failed e"
proof -
  obtain cs us where "findTrackUris P (songs p) = (Inr uris, cs, us)"
    using assms(1) by (cases "findTrackUris P (songs p)") auto
  then show ?thesis
    using assms(2,3) by (simp add: process_playlist_def Let_def)
qed

lemma preview_playlists_status:
  "(status (fst (preview_playlists P st)) = 500) = (fst (snd (preview_playlists P st)) = [])
   \<and> (status (fst (preview_playlists P st)) = 200) = (fst (snd (preview_playlists P st)) \<noteq> [])"
proof (cases "refreshTokenIfNeeded P st")
  case (Pair r st1)
  show ?thesis
  proof (cases r)
    case (Inl e)
    then show ?thesis using Pair by (simp add: preview_playlists_def)
  next
    case (Inr u)
    show ?thesis
    proof (cases "readPlaylists P")
      case (Inl e)
      then show ?thesis using Pair Inr by (simp add: preview_playlists_def)
    next
      case ps: (Inr playlists)
      show ?thesis
        using Pair Inr ps by (simp add: preview_playlists_def preview_loop_eq)
    qed
  qed
qed

lemma preview_playlists_ids:
  assumes "fst (refreshTokenIfNeeded P st) = Inr ()" and "readPlaylists P = Inr playlists"
  shows "fst (snd (preview_playlists P st))
           = map fst (concat (map (\<lambda>p. created_of (fst (process_playlist P p))) playlists))"
proof -
  obtain st1 where "refreshTokenIfNeeded P st = (Inr (), st1)"
    using assms(1) by (cases "refreshTokenIfNeeded P st") auto
  then show ?thesis using assms(2) by (simp add: preview_playlists_def preview_loop_eq)
qed

text \<open>
  Claim C7. The handler of the bulk flow answers with status 500 if and only if
  \<open>createdPlaylistIds\<close> is empty at the end, and with status 200 otherwise. Once the
  token check has passed and the suggestions are read, \<open>createdPlaylistIds\<close> holds, in
  order, the id of every suggested playlist whose own step ends with the playlist created
  and filled: every playlist is processed whatever became of the ones before it. A playlist
  whose songs all fail to resolve is skipped, and no call that creates a playlist or adds
  tracks is made for it. A playlist whose creation fails only fails its own step. With six
  suggested playlists, one of which resolves to no valid track while the steps of the
  other five succeed, exactly five playlists are created and the status is 200.
\<close>

theorem bulk_flow_skips_and_reports:
  "(status (fst (preview_playlists P st)) = 500) = (fst (snd (preview_playlists P st)) = [])
   \<and> (status (fst (preview_playlists P st)) = 200) = (fst (snd (preview_playlists P st)) \<noteq> [])
   \<and> (\<forall>playlists. fst (refreshTokenIfNeeded P st) = Inr () \<and> readPlaylists P = Inr playlists \<longrightarrow>
         fst (snd (preview_playlists P st))
           = map fst (concat (map (\<lambda>p. created_of (fst (process_playlist P p))) playlists)))
   \<and> (\<forall>p uris. fst (findTrackUris P (songs p)) = Inr uris \<and> (\<forall>u\<in>set uris. u = None) \<longrightarrow>
         fst (process_playlist P p) = NoValidTracks
         \<and> (\<forall>n d. CreatePlaylist n d \<notin> set (snd (process_playlist P p)))
         \<and> (\<forall>i us. AddTracksToPlaylist i us \<notin> set (snd (process_playlist P p))))
   \<and> (\<forall>p uris e. fst (findTrackUris P (songs p)) = Inr uris \<and> valid_uris uris \<noteq> []
         \<and> queued (createPlaylist P (name (sanitizePlaylistData p))
                      (description (sanitizePlaylistData p))) = Inl e \<longrightarrow>
         fst (process_playlist P p) = Failed e)
   \<and> (\<forall>before z after.
         fst (refreshTokenIfNeeded P st) = Inr () \<and> readPlaylists P = Inr (before @ z # after)
         \<and> length (before @ z # after) = 6
         \<and> fst (process_playlist P z) = NoValidTracks
         \<and> (\<forall>p\<in>set (before @ after). \<exists>i e. fst (process_playlist P p) = Created i e) \<longrightarrow>
         length (fst (snd (preview_playlists P st))) = 5
         \<and> status (fst (preview_playlists P st)) = 200)"
proof -
  have skip: "fst (process_playlist P p) = NoValidTracks
         \<and> (\<forall>n d. CreatePlaylist n d \<notin> set (snd (process_playlist P p)))
         \<and> (\<forall>i us. AddTracksToPlaylist i us \<notin> set (snd (process_playlist P p)))"
    if "fst (findTrackUris P (songs p)) = Inr uris \<and> (\<forall>u\<in>set uris. u = None)" for p uris
  proof -
    have e: "process_playlist P p = (NoValidTracks, fst (snd (findTrackUris P (songs p))))"
      using that process_playlist_no_valid by blast
    show ?thesis
      unfolding e using findTrackUris_calls[of _ P "songs p"] by auto
  qed
  have six: "length (fst (snd (preview_playlists P st))) = 5
         \<and> status (fst (preview_playlists P st)) = 200"
    if h: "fst (refreshTokenIfNeeded P st) = Inr () \<and> readPlaylists P = Inr (before @ z # after)
         \<and> length (before @ z # after) = 6
         \<and> fst (process_playlist P z) = NoValidTracks
         \<and> (\<forall>p\<in>set (before @ after). \<exists>i e. fst (process_playlist P p) = Created i e)"
    for before z after
  proof -
    have ids: "fst (snd (preview_playlists P st))
           = map fst (concat (map (\<lambda>p. created_of (fst (process_playlist P p)))
                                (before @ z # after)))"
      using h preview_playlists_ids by blast
    have b: "length (concat (map (\<lambda>p. created_of (fst (process_playlist P p))) before))
               = length before"
      using h by (intro all_created_length) auto
    have a: "length (concat (map (\<lambda>p. created_of (fst (process_playlist P p))) after))
               = length after"
      using h by (intro all_created_length) auto
    have z: "created_of (fst (process_playlist P z)) = []" using h by simp
    have len: "length (fst (snd (preview_playlists P st))) = 5"
      unfolding ids using a b z h by simp
    then have "fst (snd (preview_playlists P st)) \<noteq> []" by auto
    then show ?thesis using len preview_playlists_status[of P st] by simp
  qed
  show ?thesis
    using preview_playlists_status[of P st] preview_playlists_ids[of P st] skip
      process_playlist_create_fails[of P] six
    by (intro conjI allI impI) (blast | assumption)+
qed

lemma process_known:
  "fst (process_playlist jukebox (mix n known_song))
     = Created (''id:'' @ slice (trim n) 0 100)
         \<lparr>embed_name = slice (trim n) 0 100, embed_description = ''d'',
          embed_id = ''id:'' @ slice (trim n) 0 100\<rparr>"
proof -
  have r: "resolve_song jukebox known_song
             = (Some ''spotify:track:1'', [SearchTracks ''track:k artist:b''])"
    by (simp add: resolve_song_def jukebox_def offline_def known_song_def exact_query_def
        found_condition_def item_at_def)
  have q: "queued (createPlaylist jukebox a b) = Inr (''id:'' @ a)"
      "queued (addTracksToPlaylist jukebox i us) = Inr ()" for a b i us
    by (simp_all add: queued_first_success jukebox_def offline_def)
  have q1: "attempts (addTracksToPlaylist jukebox i us) = 1" for i us
    by (simp add: queued_first_success jukebox_def offline_def)
  have ab: "add_batches jukebox i [''spotify:track:1''] 0
              = (Inr (), [AddTracksToPlaylist i [''spotify:track:1'']])" for i
    by (simp add: add_batches.simps[of _ _ _ 0] add_batches.simps[of _ _ _ 100] q q1 Let_def
        slice_def)
  have d: "slice (trim ''d'') 0 300 = ''d''" by (simp add: slice_def trim_def is_ws_def)
  show ?thesis
    by (simp add: process_playlist_def findTrackUris_eq mix_def r valid_uris_def
        sanitizePlaylistData_def q d Let_def ab)
qed

theorem bulk_flow_skips_and_reports_witness:
  "status (fst (preview_playlists jukebox fresh_server)) = 200
   \<and> length (fst (snd (preview_playlists jukebox fresh_server))) = 5"
proof -
  have t: "fst (refreshTokenIfNeeded jukebox fresh_server) = Inr ()"
    by (simp add: refreshTokenIfNeeded_def fresh_server_def jukebox_def offline_def Let_def)
  have rd: "readPlaylists jukebox
              = Inr ([mix ''A'' known_song, mix ''B'' known_song] @ mix ''Z'' some_song
                     # [mix ''C'' known_song, mix ''D'' known_song, mix ''E'' known_song])"
    by (simp add: jukebox_def)
  have r: "fst (resolve_song jukebox some_song) = None"
    by (simp add: resolve_song_def jukebox_def offline_def some_song_def exact_query_def
        found_condition_def)
  have f: "fst (findTrackUris jukebox (songs (mix ''Z'' some_song))) = Inr [None]"
    by (simp add: findTrackUris_eq mix_def r)
  have n: "\<forall>u\<in>set [None :: string option]. u = None" by simp
  have z: "fst (process_playlist jukebox (mix ''Z'' some_song)) = NoValidTracks"
    using bulk_flow_skips_and_reports[of jukebox fresh_server] f n by blast
  have c: "\<forall>p\<in>set ([mix ''A'' known_song, mix ''B'' known_song]
                     @ [mix ''C'' known_song, mix ''D'' known_song, mix ''E'' known_song]).
             \<exists>i e. fst (process_playlist jukebox p) = Created i e"
    by (simp add: process_known)
  have l: "length ([mix ''A'' known_song, mix ''B'' known_song] @ mix ''Z'' some_song
                     # [mix ''C'' known_song, mix ''D'' known_song, mix ''E'' known_song]) = 6"
    by simp
  from bulk_flow_skips_and_reports[of jukebox fresh_server] t rd l z c
  show ?thesis by blast
qed

section \<open>Properties of the custom-prompt flow\<close>

lemma refreshTokenIfNeeded_calls:
  "\<exists>cs. calls (snd (refreshTokenIfNeeded P st)) = calls st @ cs
        \<and> (\<forall>c\<in>set cs. \<exists>r. c = RefreshAccessToken r)"
  by (auto simp: refreshTokenIfNeeded_def Let_def split: option.splits sum.splits)

lemma refreshTokenIfNeeded_valid:
  assumes "token_file st = Some td" and "\<not> expires_at td - clock P (ticks st) < 300000"
  shows "refreshTokenIfNeeded P st
           = (Inr (), st\<lparr>ticks := ticks st + 1, api_access_token := Some (access_token td)\<rparr>)"
  using assms by (simp add: refreshTokenIfNeeded_def Let_def)

lemma create_custom_playlist_empty:
  assumes "\<not> truthy userPrompt"
  shows "create_custom_playlist P userPrompt st =
           (case refreshTokenIfNeeded P st of
              (Inl error, st1) \<Rightarrow> (\<lparr>status = 500, body = ErrorReport error\<rparr>, st1)
            | (Inr _, st1) \<Rightarrow> (\<lparr>status = 400, body = Text ''Prompt is required''\<rparr>, st1))"
  using assms by (simp add: create_custom_playlist_def split: prod.splits sum.splits)

text \<open>
  Claim C8 as stated fails. With no token file, a request with an empty prompt is answered
  by the middleware with status 401, not 400. With a stored token inside the safety
  margin, the request is answered with status 400 only after the refresh exchange has
  been made with the platform.
\<close>

theorem empty_prompt_counterexample:
  "\<not> truthy (JString [])
   \<and> status (fst (post_create_custom_playlist offline (JString []) logged_out)) = 401
   \<and> status (fst (post_create_custom_playlist granting (JString []) expiring_server)) = 400
   \<and> calls (snd (post_create_custom_playlist granting (JString []) expiring_server))
       = [RefreshAccessToken ''r'']"
proof -
  define s2 where "s2 =
      \<lparr>token_file = Some \<lparr>access_token = ''new'', refresh_token = ''r'', expires_at = 4600000\<rparr>,
       token_writes = [\<lparr>access_token = ''new'', refresh_token = ''r'', expires_at = 4600000\<rparr>],
       api_access_token = Some ''new'', api_refresh_token = Some ''r'',
       ticks = 2, calls = [RefreshAccessToken ''r'']\<rparr>"
  have n: "\<not> truthy (JString [])" by simp
  have a: "refreshTokenIfNeeded offline logged_out = (Inl failed_to_refresh, logged_out)"
    by (simp add: refreshTokenIfNeeded_def logged_out_def fresh_server_def)
  have b: "refreshTokenIfNeeded granting expiring_server = (Inr (), s2)"
    by (simp add: refreshTokenIfNeeded_def granting_def offline_def expiring_server_def Let_def
        s2_def)
  have c: "refreshTokenIfNeeded granting s2 = (Inr (), s2\<lparr>ticks := 3\<rparr>)"
    by (simp add: refreshTokenIfNeeded_def granting_def offline_def Let_def s2_def)
  have d: "calls (s2\<lparr>ticks := 3\<rparr>) = [RefreshAccessToken ''r'']" by (simp add: s2_def)
  show ?thesis
    by (simp add: post_create_custom_playlist_def with_token_check_def a b c d
        create_custom_playlist_empty[OF n])
qed

text \<open>
  Claim C8, amended. A request to the custom-playlist endpoint whose prompt is empty or
  missing (any falsy value) is answered with status 401 when the token check of the
  middleware fails, with status 500 when the token check of the handler fails, and with
  status 400 otherwise. The only outbound calls made before the response are refresh
  exchanges of these token checks: no call goes to the language model and none to the
  search or playlist endpoints of the platform. With a stored token outside the safety
  margin at both checks, the response is 400 and no outbound call is made at all.
\<close>

theorem empty_prompt_rejected:
  assumes "\<not> truthy userPrompt"
  shows "status (fst (post_create_custom_playlist P userPrompt st))
           = (if fst (refreshTokenIfNeeded P st) \<noteq> Inr () then 401
              else if fst (refreshTokenIfNeeded P (snd (refreshTokenIfNeeded P st))) \<noteq> Inr ()
              then 500 else 400)
       \<and> (\<exists>cs. calls (snd (post_create_custom_playlist P userPrompt st)) = calls st @ cs
              \<and> (\<forall>c\<in>set cs. \<exists>r. c = RefreshAccessToken r))
       \<and> (\<forall>td. token_file st = Some td
              \<and> \<not> expires_at td - clock P (ticks st) < 300000
              \<and> \<not> expires_at td - clock P (ticks st + 1) < 300000 \<longrightarrow>
            status (fst (post_create_custom_playlist P userPrompt st)) = 400
            \<and> calls (snd (post_create_custom_playlist P userPrompt st)) = calls st)"
proof -
  obtain r1 st1 where A: "refreshTokenIfNeeded P st = (r1, st1)"
    by (cases "refreshTokenIfNeeded P st")
  obtain r2 st2 where B: "refreshTokenIfNeeded P st1 = (r2, st2)"
    by (cases "refreshTokenIfNeeded P st1")
  from refreshTokenIfNeeded_calls[of P st] A obtain cs1
    where cs1: "calls st1 = calls st @ cs1" "\<forall>c\<in>set cs1. \<exists>r. c = RefreshAccessToken r" by auto
  from refreshTokenIfNeeded_calls[of P st1] B obtain cs2
    where cs2: "calls st2 = calls st1 @ cs2" "\<forall>c\<in>set cs2. \<exists>r. c = RefreshAccessToken r" by auto
  have R: "post_create_custom_playlist P userPrompt st =
             (case r1 of
                Inl e \<Rightarrow> (\<lparr>status = 401, body = Text ''Authentication required. Please log in again.''\<rparr>, st1)
              | Inr _ \<Rightarrow> (case r2 of
                   Inl e \<Rightarrow> (\<lparr>status = 500, body = ErrorReport e\<rparr>, st2)
                 | Inr _ \<Rightarrow> (\<lparr>status = 400, body = Text ''Prompt is required''\<rparr>, st2)))"
    by (simp add: post_create_custom_playlist_def with_token_check_def A B
        create_custom_playlist_empty[OF assms] split: sum.splits)
  have 1: "status (fst (post_create_custom_playlist P userPrompt st))
           = (if fst (refreshTokenIfNeeded P st) \<noteq> Inr () then 401
              else if fst (refreshTokenIfNeeded P (snd (refreshTokenIfNeeded P st))) \<noteq> Inr ()
              then 500 else 400)"
    unfolding R by (cases r1; cases r2) (simp_all add: A B)
  have 2: "\<exists>cs. calls (snd (post_create_custom_playlist P userPrompt st)) = calls st @ cs
              \<and> (\<forall>c\<in>set cs. \<exists>r. c = RefreshAccessToken r)"
  proof (cases r1)
    case (Inl e)
    then show ?thesis unfolding R using cs1 by auto
  next
    case (Inr u)
    have "calls st2 = calls st @ (cs1 @ cs2) \<and> (\<forall>c\<in>set (cs1 @ cs2). \<exists>r. c = RefreshAccessToken r)"
      using cs1 cs2 by auto
    then have "\<exists>cs. calls st2 = calls st @ cs \<and> (\<forall>c\<in>set cs. \<exists>r. c = RefreshAccessToken r)"
      by blast
    then show ?thesis unfolding R using Inr by (cases r2) simp_all
  qed
  have 3: "status (fst (post_create_custom_playlist P userPrompt st)) = 400
            \<and> calls (snd (post_create_custom_playlist P userPrompt st)) = calls st"
    if h: "token_file st = Some td
              \<and> \<not> expires_at td - clock P (ticks st) < 300000
              \<and> \<not> expires_at td - clock P (ticks st + 1) < 300000" for td
  proof -
    have a: "refreshTokenIfNeeded P st
           = (Inr (), st\<lparr>ticks := ticks st + 1, api_access_token := Some (access_token td)\<rparr>)"
      using h by (intro refreshTokenIfNeeded_valid) auto
    have b: "refreshTokenIfNeeded P (st\<lparr>ticks := ticks st + 1, api_access_token := Some (access_token td)\<rparr>)
           = (Inr (), st\<lparr>ticks := ticks st + 1, api_access_token := Some (access_token td)\<rparr>
                \<lparr>ticks := ticks st + 1 + 1, api_access_token := Some (access_token td)\<rparr>)"
      using h refreshTokenIfNeeded_valid[of "st\<lparr>ticks := ticks st + 1, api_access_token := Some (access_token td)\<rparr>" td P]
      by simp
    show ?thesis
      using A B a b unfolding R by auto
  qed
  from 1 2 3 show ?thesis by blast
qed

theorem empty_prompt_rejected_witness:
  "status (fst (post_create_custom_playlist jukebox (JString []) fresh_server)) = 400
   \<and> calls (snd (post_create_custom_playlist jukebox (JString []) fresh_server)) = []"
proof -
  have n: "\<not> truthy (JString [])" by simp
  have t: "token_file fresh_server
             = Some \<lparr>access_token = ''a'', refresh_token = ''r'', expires_at = 10000000\<rparr>"
    by (simp add: fresh_server_def)
  have m: "\<not> expires_at \<lparr>access_token = ''a'', refresh_token = ''r'', expires_at = 10000000\<rparr>
               - clock jukebox (ticks fresh_server) < 300000"
      "\<not> expires_at \<lparr>access_token = ''a'', refresh_token = ''r'', expires_at = 10000000\<rparr>
               - clock jukebox (ticks fresh_server + 1) < 300000"
    by (simp_all add: jukebox_def offline_def)
  have c: "calls fresh_server = []" by (simp add: fresh_server_def)
  from empty_prompt_rejected[OF n, of jukebox fresh_server] t m c show ?thesis by auto
qed

section \<open>Sanitizing the name and the description\<close>

lemma trim_no_space:
  assumes "s \<noteq> []" and "\<not> is_ws (hd s)" and "\<not> is_ws (last s)"
  shows "trim s = s"
proof -
  have 1: "dropWhile is_ws s = s" using assms(1,2) by (cases s) auto
  have "rev s \<noteq> []" and "\<not> is_ws (hd (rev s))" using assms(1,3) by (simp_all add: hd_rev)
  then have 2: "dropWhile is_ws (rev s) = rev s" by (cases "rev s") auto
  show ?thesis by (simp add: trim_def 1 2)
qed

text \<open>
  What \<open>sanitizePlaylistData\<close> guarantees: the name and the description are the first 100
  and 300 characters of the trimmed strings, so they have at most 100 and 300 characters,
  and exactly that many when the trimmed strings are longer.
\<close>

lemma sanitizePlaylistData_lengths:
  "name (sanitizePlaylistData p) = take 100 (trim (name p))
   \<and> description (sanitizePlaylistData p) = take 300 (trim (description p))
   \<and> length (name (sanitizePlaylistData p)) = min 100 (length (trim (name p)))
   \<and> length (description (sanitizePlaylistData p)) = min 300 (length (trim (description p)))
   \<and> songs (sanitizePlaylistData p) = songs p"
  by (simp add: sanitizePlaylistData_def slice_def min.commute)

text \<open>In the bulk flow a playlist is created under its sanitized name and description.\<close>

lemma process_playlist_creates_sanitized:
  assumes "CreatePlaylist n d \<in> set (snd (process_playlist P p))"
  shows "n = take 100 (trim (name p)) \<and> d = take 300 (trim (description p))"
proof -
  obtain r searched units where f: "findTrackUris P (songs p) = (r, searched, units)"
    by (cases "findTrackUris P (songs p)")
  have s: "CreatePlaylist n d \<notin> set searched"
    using findTrackUris_calls[of "CreatePlaylist n d" P "songs p"] f by auto
  have a: "CreatePlaylist n d \<notin> set (snd (add_batches P i us k))" for i us k
  proof (induction P i us k rule: add_batches.induct)
    case (1 P newId validTrackUris i)
    show ?case
    proof (cases "i < length validTrackUris")
      case False
      then show ?thesis by (subst add_batches.simps) simp
    next
      case True
      show ?thesis
      proof (cases "queued (addTracksToPlaylist P newId (slice validTrackUris i (i + 100)))")
        case (Inl e)
        then show ?thesis using True by (subst add_batches.simps) (simp add: Let_def)
      next
        case (Inr u)
        from "1"[OF True refl refl Inr] show ?thesis
          using True Inr
          by (subst add_batches.simps) (auto simp: Let_def split: prod.splits)
      qed
    qed
  qed
  have a': "CreatePlaylist n d \<notin> set cs" if "add_batches P i us k = (rr, cs)" for i us k rr cs
    using a[of i us k] that by simp
  show ?thesis
  proof (cases r)
    case (Inl e)
    then show ?thesis using assms f s by (simp add: process_playlist_def)
  next
    case (Inr uris)
    then show ?thesis
      using assms f s sanitizePlaylistData_lengths[of p]
      by (auto simp: process_playlist_def Let_def dest: a'
          split: if_splits sum.splits prod.splits)
  qed
qed

text \<open>
  Claim C9 does not hold of the custom-prompt flow. When the language model answers with a
  playlist whose name has 101 characters, the handler of \<open>/create-custom-playlist\<close>
  creates the playlist under that name as it is, and adds all tracks in one call, while
  \<open>sanitizePlaylistData\<close>, which the bulk flow applies first, cuts the same name to 100
  characters.
\<close>

theorem custom_flow_sends_unsanitized_name:
  "length long_name = 101
   \<and> status (fst (post_create_custom_playlist wordy (JString ''p'') fresh_server)) = 200
   \<and> calls (snd (post_create_custom_playlist wordy (JString ''p'') fresh_server))
       = [MessagesCreate (JString ''p''), SearchTracks ''track:k artist:b'',
          CreatePlaylist long_name ''d'',
          AddTracksToPlaylist (''id:'' @ long_name) [''spotify:track:1'']]
   \<and> name (sanitizePlaylistData (mix long_name known_song)) = replicate 100 CHR ''a''"
proof -
  have r: "resolve_song wordy known_song
             = (Some ''spotify:track:1'', [SearchTracks ''track:k artist:b''])"
    by (simp add: resolve_song_def wordy_def jukebox_def offline_def known_song_def
        exact_query_def found_condition_def item_at_def)
  have q: "queued (createPlaylist wordy a b) = Inr (''id:'' @ a)"
      "queued (addTracksToPlaylist wordy i us) = Inr ()"
      "attempts (createPlaylist wordy a b) = 1"
      "attempts (addTracksToPlaylist wordy i us) = 1" for a b i us
    by (simp_all add: queued_first_success wordy_def jukebox_def offline_def)
  have t: "token_file fresh_server
             = Some \<lparr>access_token = ''a'', refresh_token = ''r'', expires_at = 10000000\<rparr>"
    by (simp add: fresh_server_def)
  have c: "clock wordy k = 0" for k by (simp add: wordy_def jukebox_def offline_def)
  define s1 where "s1 = fresh_server\<lparr>ticks := ticks fresh_server + 1,
                                     api_access_token := Some ''a''\<rparr>"
  define s2 where "s2 = s1\<lparr>ticks := ticks s1 + 1, api_access_token := Some ''a''\<rparr>"
  have t1: "refreshTokenIfNeeded wordy fresh_server = (Inr (), s1)"
    unfolding s1_def using refreshTokenIfNeeded_valid[OF t, of wordy] by (simp add: c)
  have ts1: "token_file s1
             = Some \<lparr>access_token = ''a'', refresh_token = ''r'', expires_at = 10000000\<rparr>"
    by (simp add: s1_def t)
  have t2: "refreshTokenIfNeeded wordy s1 = (Inr (), s2)"
    unfolding s2_def using refreshTokenIfNeeded_valid[OF ts1, of wordy] by (simp add: c)
  have cf: "calls s2 = []" by (simp add: s2_def s1_def fresh_server_def)
  have m: "messagesCreate wordy x = Inr (mix long_name known_song)" for x
    by (simp add: wordy_def)
  have l: "length long_name = 101" by (simp add: long_name_def)
  have tr: "trim long_name = long_name"
    by (rule trim_no_space) (simp_all add: long_name_def is_ws_def)
  have sn: "name (sanitizePlaylistData (mix long_name known_song)) = replicate 100 CHR ''a''"
    by (simp add: sanitizePlaylistData_def mix_def tr slice_def) (simp add: long_name_def)
  have st: "status (fst (post_create_custom_playlist wordy (JString ''p'') fresh_server)) = 200"
    by (simp add: post_create_custom_playlist_def with_token_check_def t1 t2
        create_custom_playlist_def m findTrackUris_eq mix_def r valid_uris_def q Let_def)
  have cs: "calls (snd (post_create_custom_playlist wordy (JString ''p'') fresh_server))
       = [MessagesCreate (JString ''p''), SearchTracks ''track:k artist:b'',
          CreatePlaylist long_name ''d'',
          AddTracksToPlaylist (''id:'' @ long_name) [''spotify:track:1'']]"
    by (simp add: post_create_custom_playlist_def with_token_check_def t1 t2
        create_custom_playlist_def m findTrackUris_eq mix_def r valid_uris_def q Let_def cf)
  from l st cs sn show ?thesis by (intro conjI)
qed

section \<open>Properties of the request queue\<close>

lemma pace_append: "pace (os @ xs) = foldl pace_step (pace os) xs"
  by (simp add: pace_def)

lemma started_append: "started (xs @ ys) = started xs @ started ys"
  by (induction xs rule: started.induct) auto

lemma settled_append: "settled (xs @ ys) = settled xs @ settled ys"
  by (induction xs rule: settled.induct) auto

lemma added_append: "added (xs @ ys) = added xs @ added ys"
  by (induction xs rule: added.induct) auto

lemma after_snoc: "after (es @ [e]) = step (after es) e"
  by (simp add: after_def)

lemma run_request_eq: "run_request t = (queued (work t), Fulfilled)"
  by (simp add: run_request_def split: sum.splits)

lemma one_worker_add:
  assumes "one_worker q"
  shows "one_worker (add t q)"
  using assms
  by (auto simp: one_worker_def add_def process_def loop_head_def pace_append)

lemma one_worker_request_done:
  assumes "one_worker q"
  shows "one_worker (request_done i q)"
  using assms
  by (auto simp: one_worker_def request_done_def run_request_eq pace_append)

lemma one_worker_timer_done:
  assumes "one_worker q"
  shows "one_worker (timer_done i q)"
  using assms
  by (auto simp: one_worker_def timer_done_def loop_head_def remove_at_def pace_append
      split: list.splits)

lemma one_worker_step: "one_worker q \<Longrightarrow> one_worker (step q e)"
  by (cases e) (simp_all add: one_worker_add one_worker_request_done one_worker_timer_done)

lemma one_worker_after: "one_worker (after es)"
proof (induction es rule: rev_induct)
  case Nil
  then show ?case by (simp add: after_def one_worker_def new_queue_def pace_def)
next
  case (snoc e es)
  then show ?case by (simp add: after_snoc one_worker_step)
qed

lemma fifo_step:
  assumes "one_worker q" and "map label ts = started (trace q) @ map label (queue q)"
  shows "map label (ts @ added [e])
           = started (trace (step q e)) @ map label (queue (step q e))"
proof (cases e)
  case (Add t)
  then show ?thesis using assms
    by (auto simp: one_worker_def add_def process_def loop_head_def started_append)
next
  case (RequestDone i)
  then show ?thesis using assms
    by (auto simp: one_worker_def request_done_def run_request_eq started_append)
next
  case (TimerDone i)
  then show ?thesis using assms
    by (auto simp: one_worker_def timer_done_def loop_head_def remove_at_def started_append
        split: list.splits)
qed

lemma fifo_after:
  "map label (added es) = started (trace (after es)) @ map label (queue (after es))"
proof (induction es rule: rev_induct)
  case Nil
  then show ?case by (simp add: after_def new_queue_def)
next
  case (snoc e es)
  from fifo_step[OF one_worker_after snoc.IH, of e] show ?case
    by (simp add: after_snoc added_append)
qed

lemma due_step:
  assumes "one_worker q"
    and "map due ts = settled (trace q) @ map due (in_flight (workers q) @ queue q)"
  shows "map due (ts @ added [e])
           = settled (trace (step q e))
               @ map due (in_flight (workers (step q e)) @ queue (step q e))"
proof (cases e)
  case (Add t)
  then show ?thesis using assms
    by (auto simp: one_worker_def add_def process_def loop_head_def settled_append)
next
  case (RequestDone i)
  then show ?thesis using assms
    by (auto simp: one_worker_def request_done_def run_request_eq settled_append due_def)
next
  case (TimerDone i)
  then show ?thesis using assms
    by (auto simp: one_worker_def timer_done_def loop_head_def remove_at_def settled_append
        split: list.splits)
qed

lemma due_after:
  "map due (added es)
     = settled (trace (after es))
         @ map due (in_flight (workers (after es)) @ queue (after es))"
proof (induction es rule: rev_induct)
  case Nil
  then show ?case by (simp add: after_def new_queue_def)
next
  case (snoc e es)
  from due_step[OF one_worker_after snoc.IH, of e] show ?case
    by (simp add: after_snoc added_append)
qed

lemma one_worker_serial: "one_worker q \<Longrightarrow> serial (trace q)"
  by (auto simp: one_worker_def serial_def)

lemma one_worker_length: "one_worker q \<Longrightarrow> length (workers q) \<le> 1"
  by (auto simp: one_worker_def)

lemma add_while_draining:
  assumes "one_worker q"
  shows "workers (add t q) = (case workers q of [] \<Rightarrow> [AwaitRequest t] | w # ws \<Rightarrow> workers q)"
  using assms
  by (auto simp: one_worker_def add_def process_def loop_head_def)

lemma drain_result:
  assumes "one_worker q"
  shows "one_worker (drain q) \<and> workers (drain q) = []
       \<and> settled (trace (drain q))
           = settled (trace q) @ map due (in_flight (workers q) @ queue q)
       \<and> started (trace (drain q)) = started (trace q) @ map label (queue q)"
  using assms
proof (induction q rule: drain.induct)
  case (1 q)
  from "1.prems" consider
      (idle) "workers q = []" "queue q = []"
    | (busy) t where "workers q = [AwaitRequest t]"
    | (rest) "workers q = [AwaitDelay 50]"
    by (auto simp: one_worker_def)
  then show ?case
  proof cases
    case idle
    then show ?thesis using "1.prems" by (subst (1 2 3 4) drain.simps) simp
  next
    case busy
    have ow: "one_worker (request_done 0 q)" using "1.prems" by (rule one_worker_request_done)
    have d: "drain q = drain (request_done 0 q)"
      by (subst drain.simps) (simp add: busy)
    have q': "trace (request_done 0 q) = trace q @ [Settled (label t) (queued (work t))]"
        "workers (request_done 0 q) = [AwaitDelay 50]"
        "queue (request_done 0 q) = queue q"
      using busy by (simp_all add: request_done_def run_request_eq)
    from "1.IH"(1)[OF busy refl ow] show ?thesis
      unfolding d by (simp add: q' busy settled_append started_append due_def)
  next
    case rest
    have ow: "one_worker (timer_done 0 q)" using "1.prems" by (rule one_worker_timer_done)
    have d: "drain q = drain (timer_done 0 q)"
      by (subst drain.simps) (simp add: rest)
    have q': "settled (trace (timer_done 0 q)) = settled (trace q)"
        "in_flight (workers (timer_done 0 q)) @ queue (timer_done 0 q) = queue q"
        "started (trace (timer_done 0 q)) @ map label (queue (timer_done 0 q))
           = started (trace q) @ map label (queue q)"
      using rest
      by (auto simp: timer_done_def loop_head_def remove_at_def settled_append started_append
          split: list.splits)
    from "1.IH"(2)[OF rest refl ow] show ?thesis
      unfolding d using q' by (simp add: rest)
  qed
qed

text \<open>
  Claim C2. After any sequence of calls of \<open>add\<close>, settlements of awaited requests and
  firings of awaited timers, the queue has at most one activation of \<open>process\<close>, hence
  at most one unit of work in flight. The observations are serial: a unit is started, it
  is settled, the delay of 50 ms elapses, and only then the next unit is started. The
  units are started in the order in which they were added: the labels added are the labels
  started followed by the labels still in the queue. A call of \<open>add\<close> leaves the
  activations as they are when there is one, and starts the only one when there is none.
\<close>

theorem single_worker_serial:
  "length (workers (after es)) \<le> 1
   \<and> length (filter executing (workers (after es))) \<le> 1
   \<and> serial (trace (after es))
   \<and> map label (added es) = started (trace (after es)) @ map label (queue (after es))
   \<and> workers (add t (after es))
       = (case workers (after es) of [] \<Rightarrow> [AwaitRequest t] | w # ws \<Rightarrow> workers (after es))
   \<and> length (workers (add t (after es))) \<le> 1"
proof -
  have ow: "one_worker (after es)" by (rule one_worker_after)
  have 1: "length (workers (after es)) \<le> 1" using ow by (rule one_worker_length)
  have 2: "length (filter executing (workers (after es))) \<le> 1"
    by (rule order_trans[OF length_filter_le 1])
  have 3: "serial (trace (after es))" using ow by (rule one_worker_serial)
  have 6: "length (workers (add t (after es))) \<le> 1"
    using one_worker_add[OF ow] by (rule one_worker_length)
  from 1 2 3 fifo_after[of es] add_while_draining[OF ow, of t] 6 show ?thesis
    by (intro conjI)
qed

text \<open>
  Claim C10. Whatever the units of work do, once the event loop has run until no
  activation is left, every unit that was added has been started, in the order of the
  calls of \<open>add\<close>, and the promise of each has been settled with the outcome of its own
  \<open>exponentialBackoff\<close>, rejected when that fails and resolved when it succeeds; the
  observations are serial, the queue is empty and \<open>isProcessing\<close> is reset. The function
  that wraps a unit of work always returns normally, so a failure never ends the worker.
\<close>

theorem failure_does_not_stop_worker:
  "settled (trace (drain (after es))) = map due (added es)
   \<and> started (trace (drain (after es))) = map label (added es)
   \<and> serial (trace (drain (after es)))
   \<and> workers (drain (after es)) = []
   \<and> queue (drain (after es)) = []
   \<and> \<not> isProcessing (drain (after es))
   \<and> run_request t = (fst (exponentialBackoff (work t) 5 1000), Fulfilled)"
proof -
  have ow: "one_worker (after es)" by (rule one_worker_after)
  note d = drain_result[OF ow]
  have 1: "settled (trace (drain (after es))) = map due (added es)"
    using d due_after[of es] by simp
  have 2: "started (trace (drain (after es))) = map label (added es)"
    using d fifo_after[of es] by simp
  have od: "one_worker (drain (after es))" and w: "workers (drain (after es)) = []"
    using d by auto
  have 3: "serial (trace (drain (after es)))" using od by (rule one_worker_serial)
  have 5: "queue (drain (after es)) = []" and 6: "\<not> isProcessing (drain (after es))"
    using od w by (auto simp: one_worker_def)
  have 7: "run_request t = (fst (exponentialBackoff (work t) 5 1000), Fulfilled)"
    by (simp add: run_request_eq queued_def)
  from 1 2 3 w 5 6 7 show ?thesis by (intro conjI)
qed

theorem failure_does_not_stop_worker_witness:
  "settled (trace (drain (after [Add failing_task, Add passing_task])))
     = [(1, Inl \<lparr>statusCode = Some 500, headers = Some [], message = ''Internal Server Error''\<rparr>),
        (2, Inr ())]"
proof -
  have f: "due failing_task
      = (1, Inl \<lparr>statusCode = Some 500, headers = Some [], message = ''Internal Server Error''\<rparr>)"
    by (simp add: due_def queued_def exponentialBackoff_def backoff_loop.simps failing_task_def)
  have p: "due passing_task = (2, Inr ())"
    by (simp add: due_def queued_def exponentialBackoff_def backoff_loop.simps passing_task_def)
  from failure_does_not_stop_worker[of "[Add failing_task, Add passing_task]" passing_task]
  show ?thesis by (simp add: f p)
qed

end
